theory Spec2Isabelle
  imports Main
begin

section \<open>Data model of the fixture manager (fixtures.go)\<close>

text \<open>
  A record value of a fixture file is a dynamically typed Go value (\<open>any\<close>). The
  constructors are the scalars a YAML document decodes to, the \<open>time.Time\<close> that
  \<open>time.Now()\<close> returns, and \<open>VOther\<close> for every other dynamic type (floats, nested
  documents), which the code only ever passes through its \<open>default\<close> branch.
\<close>

datatype val = VNull | VBool bool | VInt int | VStr string | VTime nat | VOther nat

text \<open>
  A fixture record is a Go \<open>map[string]any\<close>. Go leaves the order in which \<open>range\<close>
  visits a map unspecified and the runtime randomises it, so the order is an input of
  the model: a record is the list of its entries in the order in which the one
  \<open>range\<close> loop of \<open>insertRecords\<close> visits them in this run, and \<open>record[pk]\<close> is
  \<open>map_of\<close>. Two lists with distinct keys and the same \<open>map_of\<close> are the same Go map,
  visited in two orders. The decoded file (\<open>TableFixtures\<close>) is likewise the list of its
  tables in the order the loop of \<open>LoadYAMLFixtures\<close> visits them.
\<close>

type_synonym row = "(string \<times> val) list"
type_synonym TableFixtures = "(string \<times> row list) list"

text \<open>
  A tracked key tuple (\<open>pkValues\<close>) is only ever read by key, so it is a partial map.
\<close>

type_synonym key_tuple = "string \<rightharpoonup> val"

record FixtureManager =
  fileExtensions :: "string list"
  tableConfigs :: "string \<rightharpoonup> string list"
  insertedRecords :: "string \<rightharpoonup> key_tuple list"

text \<open>
  Errors are values. Each constructor is one \<open>fmt.Errorf\<close> of the source; a wrapped
  error keeps the error it wraps, and the table or file name the message carries.
\<close>

datatype error =
    ReadFileFailed
  | UnmarshalFailed
  | BeginFailed
  | InsertRecordFailed
  | InsertRecordsFailed string error
  | CommitFailed
  | CleanupBeginFailed
  | CleanupTableFailed string
  | CleanupCommitFailed
  | ReadDirFailed
  | LoadFixtureFailed string error

subsection \<open>The world outside the manager\<close>

text \<open>
  The database handle, the file system and the clock are borrowed from the caller. The
  world records the committed contents of the database (\<open>store\<close>), every call made on
  the outside world in order (\<open>calls\<close>) and the number of clock readings so far
  (\<open>ticks\<close>). The deferred \<open>tx.Rollback()\<close> is a call like any other and is logged
  also after a commit, where it only reports that the transaction is done.
\<close>

datatype event =
    Begin
  | Exec string "val list"
  | Commit
  | Rollback
  | ReadFile string
  | ReadDir string

record 'db world =
  store :: 'db
  calls :: "event list"
  ticks :: nat

text \<open>
  The behaviour of the outside world is a parameter. \<open>sql_exec\<close> gives the effect of a
  statement with its bound values on the contents seen by the transaction, or \<open>None\<close>
  when the driver reports an error. A transaction works on a copy of the committed
  contents, which a successful commit installs and a rollback or a failed commit drops.
  \<open>time_now k\<close> is the wall-clock time at the \<open>k\<close>-th reading of the clock.
  \<open>path_join\<close> is \<open>filepath.Join\<close>.
\<close>

record 'db env =
  sql_begin :: "'db world \<Rightarrow> bool"
  sql_exec :: "string \<Rightarrow> val list \<Rightarrow> 'db \<Rightarrow> 'db option"
  sql_commit :: "'db world \<Rightarrow> 'db \<Rightarrow> bool"
  time_now :: "nat \<Rightarrow> nat"
  os_read_file :: "string \<Rightarrow> string option"
  yaml_unmarshal :: "string \<Rightarrow> TableFixtures option"
  os_read_dir :: "string \<Rightarrow> (string \<times> bool) list option"
  path_join :: "string \<Rightarrow> string \<Rightarrow> string"

definition log_call :: "event \<Rightarrow> 'db world \<Rightarrow> 'db world" where
  "log_call e w = w\<lparr>calls := calls w @ [e]\<rparr>"

subsection \<open>String helpers of the Go library\<close>

definition digit :: "nat \<Rightarrow> char" where
  "digit d = ''0123456789'' ! d"

text \<open>\<open>fmt.Sprintf("%d", n)\<close> for a non-negative \<open>n\<close>.\<close>

fun sprint_d :: "nat \<Rightarrow> string" where
  "sprint_d n = (if n < 10 then [digit n] else sprint_d (n div 10) @ [digit (n mod 10)])"

declare sprint_d.simps [simp del]

text \<open>\<open>strings.Join\<close>.\<close>

fun join :: "string list \<Rightarrow> string \<Rightarrow> string" where
  "join [] sep = []"
| "join [x] sep = x"
| "join (x # y # ys) sep = x @ sep @ join (y # ys) sep"

text \<open>
  \<open>filepath.Ext\<close>: the suffix beginning at the final dot of the final path element,
  empty when that element has no dot. The scan runs from the end of the path and stops at
  a path separator, here the slash.
\<close>

fun ext_scan :: "string \<Rightarrow> string \<Rightarrow> string" where
  "ext_scan [] acc = []"
| "ext_scan (c # cs) acc =
     (if c = CHR ''/'' then []
      else if c = CHR ''.'' then c # acc
      else ext_scan cs (c # acc))"

definition filepath_Ext :: "string \<Rightarrow> string" where
  "filepath_Ext path = ext_scan (rev path) []"

section \<open>The fixture manager\<close>

definition DefaultFileExtensions :: "string list" where
  "DefaultFileExtensions = [''.yml'', ''.yaml'']"

definition NewFixtureManagerWithConfig :: "string list \<Rightarrow> FixtureManager" where
  "NewFixtureManagerWithConfig exts =
     \<lparr>fileExtensions = exts, tableConfigs = Map.empty, insertedRecords = Map.empty\<rparr>"

definition NewFixtureManager :: FixtureManager where
  "NewFixtureManager = NewFixtureManagerWithConfig DefaultFileExtensions"

definition ConfigureTable :: "string \<Rightarrow> string list \<Rightarrow> FixtureManager \<Rightarrow> FixtureManager" where
  "ConfigureTable tableName primaryKeys fm =
     fm\<lparr>tableConfigs := (tableConfigs fm)(tableName \<mapsto> primaryKeys)\<rparr>"

definition getPrimaryKeys :: "FixtureManager \<Rightarrow> string \<Rightarrow> string list" where
  "getPrimaryKeys fm tableName =
     (case tableConfigs fm tableName of Some primaryKeys \<Rightarrow> primaryKeys | None \<Rightarrow> [''id''])"

subsection \<open>insertRecords\<close>

text \<open>The loop that fills \<open>pkValues\<close> from the configured primary keys.\<close>

fun collect_pk :: "row \<Rightarrow> string list \<Rightarrow> key_tuple \<Rightarrow> key_tuple" where
  "collect_pk record [] pkValues = pkValues"
| "collect_pk record (pk # pks) pkValues =
     (case map_of record pk of
        Some v \<Rightarrow> collect_pk record pks (pkValues(pk \<mapsto> v))
      | None \<Rightarrow> collect_pk record pks pkValues)"

text \<open>
  The append to the tracking map, under its guard \<open>len(pkValues) > 0\<close>. A table that
  has no entry yet gets the empty list first.
\<close>

definition track :: "string \<Rightarrow> key_tuple \<Rightarrow> FixtureManager \<Rightarrow> FixtureManager" where
  "track tableName pkValues fm =
     (if pkValues \<noteq> Map.empty
      then fm\<lparr>insertedRecords := (insertedRecords fm)
             (tableName \<mapsto> (case insertedRecords fm tableName of None \<Rightarrow> [] | Some l \<Rightarrow> l) @ [pkValues])\<rparr>
      else fm)"

text \<open>
  The type switch on a value: the string \<open>NOW()\<close> reads the clock, every other value
  is kept. The result is the bound value and the number of clock readings after it.
\<close>

definition bind_value :: "(nat \<Rightarrow> nat) \<Rightarrow> nat \<Rightarrow> val \<Rightarrow> val \<times> nat" where
  "bind_value now k v =
     (case v of
        VStr s \<Rightarrow> (if s = ''NOW()'' then (VTime (now k), Suc k) else (VStr s, k))
      | _ \<Rightarrow> (v, k))"

text \<open>
  The loop over the entries of a record. The accumulator holds \<open>columns\<close>,
  \<open>placeholders\<close>, \<open>values\<close>, the counter \<open>i\<close> and the clock readings; \<open>i\<close> is a Go
  \<open>int\<close> that counts the columns of one record and cannot overflow.
\<close>

fun bind_loop :: "(nat \<Rightarrow> nat) \<Rightarrow> row \<Rightarrow>
    string list \<times> string list \<times> val list \<times> nat \<times> nat \<Rightarrow>
    string list \<times> string list \<times> val list \<times> nat \<times> nat" where
  "bind_loop now [] acc = acc"
| "bind_loop now ((column, v) # rest) (columns, placeholders, vals, i, k) =
     (case bind_value now k v of
        (v', k') \<Rightarrow>
          bind_loop now rest
            (columns @ [column], placeholders @ [''$'' @ sprint_d i], vals @ [v'], i + 1, k'))"

definition insert_query :: "string \<Rightarrow> string list \<Rightarrow> string list \<Rightarrow> string" where
  "insert_query tableName columns placeholders =
     ''INSERT INTO '' @ tableName @ '' ('' @ join columns '', '' @ '') VALUES (''
       @ join placeholders '', '' @ '')''"

text \<open>
  The state of a running transaction is the manager, the world and the contents the
  transaction sees. The loop stops at the first statement the driver rejects.
\<close>

fun insertRecords :: "'db env \<Rightarrow> string \<Rightarrow> row list \<Rightarrow>
    FixtureManager \<times> 'db world \<times> 'db \<Rightarrow> error option \<times> FixtureManager \<times> 'db world \<times> 'db" where
  "insertRecords env tableName [] (fm, w, tx) = (None, fm, w, tx)"
| "insertRecords env tableName (record # records) (fm, w, tx) =
     (let pkValues = collect_pk record (getPrimaryKeys fm tableName) Map.empty;
          fm1 = track tableName pkValues fm
      in case bind_loop (time_now env) record ([], [], [], 1, ticks w) of
           (columns, placeholders, vals, i, k) \<Rightarrow>
             (let query = insert_query tableName columns placeholders;
                  w1 = log_call (Exec query vals) (w\<lparr>ticks := k\<rparr>)
              in case sql_exec env query vals tx of
                   None \<Rightarrow> (Some InsertRecordFailed, fm1, w1, tx)
                 | Some tx1 \<Rightarrow> insertRecords env tableName records (fm1, w1, tx1)))"

subsection \<open>LoadYAMLFixtures\<close>

text \<open>The loop over the tables of the decoded file.\<close>

fun insert_tables :: "'db env \<Rightarrow> TableFixtures \<Rightarrow>
    FixtureManager \<times> 'db world \<times> 'db \<Rightarrow> error option \<times> FixtureManager \<times> 'db world \<times> 'db" where
  "insert_tables env [] s = (None, s)"
| "insert_tables env ((tableName, records) # rest) s =
     (case insertRecords env tableName records s of
        (Some e, s') \<Rightarrow> (Some (InsertRecordsFailed tableName e), s')
      | (None, s') \<Rightarrow> insert_tables env rest s')"

text \<open>
  The deferred rollback is registered only once \<open>Begin\<close> has succeeded, and runs on
  every later exit.
\<close>

definition LoadYAMLFixtures :: "'db env \<Rightarrow> string \<Rightarrow> FixtureManager \<times> 'db world \<Rightarrow>
    error option \<times> FixtureManager \<times> 'db world" where
  "LoadYAMLFixtures env fixturePath s =
     (case s of (fm, w) \<Rightarrow>
        (let w0 = log_call (ReadFile fixturePath) w in
         case os_read_file env fixturePath of
           None \<Rightarrow> (Some ReadFileFailed, fm, w0)
         | Some content \<Rightarrow>
             (case yaml_unmarshal env content of
                None \<Rightarrow> (Some UnmarshalFailed, fm, w0)
              | Some fixtures \<Rightarrow>
                  (let w1 = log_call Begin w0 in
                   if \<not> sql_begin env w0 then (Some BeginFailed, fm, w1)
                   else
                     (case insert_tables env fixtures (fm, w1, store w1) of
                        (Some e, fm2, w2, tx) \<Rightarrow> (Some e, fm2, log_call Rollback w2)
                      | (None, fm2, w2, tx) \<Rightarrow>
                          (if sql_commit env w2 tx
                           then (None, fm2, log_call Rollback (log_call Commit (w2\<lparr>store := tx\<rparr>)))
                           else (Some CommitFailed, fm2,
                                 log_call Rollback (log_call Commit w2))))))))"

subsection \<open>CleanupFixtures\<close>

text \<open>The inner loop over the primary keys, for one tracked tuple.\<close>

fun record_conditions :: "string list \<Rightarrow> key_tuple \<Rightarrow>
    string list \<times> val list \<times> nat \<Rightarrow> string list \<times> val list \<times> nat" where
  "record_conditions [] record acc = acc"
| "record_conditions (pk # pks) record (recordConditions, recordValues, paramCount) =
     (case record pk of
        Some v \<Rightarrow>
          record_conditions pks record
            (recordConditions @ [pk @ '' = $'' @ sprint_d paramCount],
             recordValues @ [v], paramCount + 1)
      | None \<Rightarrow> record_conditions pks record (recordConditions, recordValues, paramCount))"

text \<open>The loop over the tracked tuples of one table.\<close>

fun table_conditions :: "string list \<Rightarrow> key_tuple list \<Rightarrow>
    string list \<times> val list \<times> nat \<Rightarrow> string list \<times> val list \<times> nat" where
  "table_conditions primaryKeys [] acc = acc"
| "table_conditions primaryKeys (record # records) (conditions, vals, paramCount) =
     (case record_conditions primaryKeys record ([], [], paramCount) of
        (recordConditions, recordValues, paramCount') \<Rightarrow>
          (if recordConditions \<noteq> []
           then table_conditions primaryKeys records
                  (conditions @ [''('' @ join recordConditions '' AND '' @ '')''],
                   vals @ recordValues, paramCount')
           else table_conditions primaryKeys records (conditions, vals, paramCount')))"

definition delete_query :: "string \<Rightarrow> string list \<Rightarrow> string" where
  "delete_query tableName conditions =
     ''DELETE FROM '' @ tableName @ '' WHERE '' @ join conditions '' OR ''"

text \<open>
  The loop over the tracking map. \<open>order\<close> is the list of its keys in the order in
  which \<open>range\<close> visits them in this call.
\<close>

fun cleanup_tables :: "'db env \<Rightarrow> FixtureManager \<Rightarrow> string list \<Rightarrow>
    'db world \<times> 'db \<Rightarrow> error option \<times> 'db world \<times> 'db" where
  "cleanup_tables env fm [] s = (None, s)"
| "cleanup_tables env fm (tableName # rest) (w, tx) =
     (case insertedRecords fm tableName of
        None \<Rightarrow> cleanup_tables env fm rest (w, tx)
      | Some records \<Rightarrow>
          (if records = [] then cleanup_tables env fm rest (w, tx)
           else
             (case table_conditions (getPrimaryKeys fm tableName) records ([], [], 1) of
                (conditions, vals, paramCount) \<Rightarrow>
                  (if conditions \<noteq> []
                   then
                     (let query = delete_query tableName conditions;
                          w1 = log_call (Exec query vals) w
                      in case sql_exec env query vals tx of
                           None \<Rightarrow> (Some (CleanupTableFailed tableName), w1, tx)
                         | Some tx1 \<Rightarrow> cleanup_tables env fm rest (w1, tx1))
                   else cleanup_tables env fm rest (w, tx)))))"

definition CleanupFixtures :: "'db env \<Rightarrow> string list \<Rightarrow> FixtureManager \<times> 'db world \<Rightarrow>
    error option \<times> FixtureManager \<times> 'db world" where
  "CleanupFixtures env order s =
     (case s of (fm, w) \<Rightarrow>
        (if insertedRecords fm = Map.empty then (None, fm, w)
         else
           (let w1 = log_call Begin w in
            if \<not> sql_begin env w then (Some CleanupBeginFailed, fm, w1)
            else
              (case cleanup_tables env fm order (w1, store w1) of
                 (Some e, w2, tx) \<Rightarrow> (Some e, fm, log_call Rollback w2)
               | (None, w2, tx) \<Rightarrow>
                   (if sql_commit env w2 tx
                    then (None, fm\<lparr>insertedRecords := Map.empty\<rparr>,
                          log_call Rollback (log_call Commit (w2\<lparr>store := tx\<rparr>)))
                    else (Some CleanupCommitFailed, fm,
                          log_call Rollback (log_call Commit w2)))))))"

subsection \<open>LoadFixturesFromDir\<close>

fun ext_member :: "string \<Rightarrow> string list \<Rightarrow> bool" where
  "ext_member ext [] = False"
| "ext_member ext (validExt # rest) = (if ext = validExt then True else ext_member ext rest)"

definition isFixtureFile :: "FixtureManager \<Rightarrow> string \<Rightarrow> bool" where
  "isFixtureFile fm filename = ext_member (filepath_Ext filename) (fileExtensions fm)"

text \<open>The loop over the directory entries; an entry is a name and its \<open>IsDir()\<close>.\<close>

fun load_entries :: "'db env \<Rightarrow> string \<Rightarrow> (string \<times> bool) list \<Rightarrow>
    FixtureManager \<times> 'db world \<Rightarrow> error option \<times> FixtureManager \<times> 'db world" where
  "load_entries env fixturesDir [] s = (None, s)"
| "load_entries env fixturesDir ((name, isDir) # rest) (fm, w) =
     (if \<not> isDir \<and> isFixtureFile fm name
      then
        (case LoadYAMLFixtures env (path_join env fixturesDir name) (fm, w) of
           (Some e, s') \<Rightarrow> (Some (LoadFixtureFailed name e), s')
         | (None, s') \<Rightarrow> load_entries env fixturesDir rest s')
      else load_entries env fixturesDir rest (fm, w))"

definition LoadFixturesFromDir :: "'db env \<Rightarrow> string \<Rightarrow> FixtureManager \<times> 'db world \<Rightarrow>
    error option \<times> FixtureManager \<times> 'db world" where
  "LoadFixturesFromDir env fixturesDir s =
     (case s of (fm, w) \<Rightarrow>
        (let w0 = log_call (ReadDir fixturesDir) w in
         case os_read_dir env fixturesDir of
           None \<Rightarrow> (Some ReadDirFailed, fm, w0)
         | Some entries \<Rightarrow> load_entries env fixturesDir entries (fm, w0)))"

section \<open>Auxiliary notions used to state the properties\<close>

text \<open>
  Running a list of statements in a transaction: the contents after the last one, or
  \<open>None\<close> as soon as the driver rejects one.
\<close>

fun run_stmts :: "'db env \<Rightarrow> (string \<times> val list) list \<Rightarrow> 'db \<Rightarrow> 'db option" where
  "run_stmts env [] tx = Some tx"
| "run_stmts env ((query, vals) # rest) tx =
     (case sql_exec env query vals tx of None \<Rightarrow> None | Some tx1 \<Rightarrow> run_stmts env rest tx1)"

definition exec_call :: "string \<times> val list \<Rightarrow> event" where
  "exec_call s = Exec (fst s) (snd s)"

text \<open>
  The statement that \<open>insertRecords\<close> builds for one record when the clock has been
  read \<open>k\<close> times, and the number of readings after it.
\<close>

definition insert_stmt :: "(nat \<Rightarrow> nat) \<Rightarrow> nat \<Rightarrow> string \<Rightarrow> row \<Rightarrow> string \<times> val list" where
  "insert_stmt now k tableName record =
     (case bind_loop now record ([], [], [], 1, k) of
        (columns, placeholders, vals, i, k') \<Rightarrow> (insert_query tableName columns placeholders, vals))"

definition ticks_after :: "(nat \<Rightarrow> nat) \<Rightarrow> nat \<Rightarrow> row \<Rightarrow> nat" where
  "ticks_after now k record =
     (case bind_loop now record ([], [], [], 1, k) of (columns, placeholders, vals, i, k') \<Rightarrow> k')"

text \<open>The records of a decoded file in processing order, each with its table.\<close>

definition file_records :: "TableFixtures \<Rightarrow> (string \<times> row) list" where
  "file_records fixtures = concat (map (\<lambda>(tableName, records). map (Pair tableName) records) fixtures)"

fun file_stmts :: "(nat \<Rightarrow> nat) \<Rightarrow> nat \<Rightarrow> (string \<times> row) list \<Rightarrow> (string \<times> val list) list" where
  "file_stmts now k [] = []"
| "file_stmts now k ((tableName, record) # rest) =
     insert_stmt now k tableName record # file_stmts now (ticks_after now k record) rest"

fun ticks_after_all :: "(nat \<Rightarrow> nat) \<Rightarrow> nat \<Rightarrow> (string \<times> row) list \<Rightarrow> nat" where
  "ticks_after_all now k [] = k"
| "ticks_after_all now k ((tableName, record) # rest) =
     ticks_after_all now (ticks_after now k record) rest"

text \<open>
  The INSERT statements of a decoded file in processing order, for a load that starts
  in the world \<open>w\<close>.
\<close>

definition load_stmts :: "'db env \<Rightarrow> 'db world \<Rightarrow> TableFixtures \<Rightarrow> (string \<times> val list) list" where
  "load_stmts env w fixtures = file_stmts (time_now env) (ticks w) (file_records fixtures)"

text \<open>The key tuple of a record, and the tracking step of one record.\<close>

definition pk_tuple :: "FixtureManager \<Rightarrow> string \<Rightarrow> row \<Rightarrow> key_tuple" where
  "pk_tuple fm tableName record = collect_pk record (getPrimaryKeys fm tableName) Map.empty"

definition track_record :: "FixtureManager \<Rightarrow> string \<times> row \<Rightarrow> FixtureManager" where
  "track_record fm tr = track (fst tr) (pk_tuple fm (fst tr) (snd tr)) fm"

text \<open>The tokens of a record that read the clock.\<close>

definition now_tokens :: "row \<Rightarrow> nat" where
  "now_tokens record = length (filter (\<lambda>e. snd e = VStr ''NOW()'') record)"

text \<open>
  The two nested loops of a load (over the tables, and over the records of a table) as
  one loop over the records in processing order; \<open>insert_tables_flat\<close> below shows that
  it computes what \<open>insert_tables\<close> computes.
\<close>

fun insert_flat :: "'db env \<Rightarrow> (string \<times> row) list \<Rightarrow>
    FixtureManager \<times> 'db world \<times> 'db \<Rightarrow> error option \<times> FixtureManager \<times> 'db world \<times> 'db" where
  "insert_flat env [] (fm, w, tx) = (None, fm, w, tx)"
| "insert_flat env ((tableName, record) # rest) (fm, w, tx) =
     (let s = insert_stmt (time_now env) (ticks w) tableName record;
          fm1 = track_record fm (tableName, record);
          w1 = log_call (exec_call s) (w\<lparr>ticks := ticks_after (time_now env) (ticks w) record\<rparr>)
      in case sql_exec env (fst s) (snd s) tx of
           None \<Rightarrow> (Some (InsertRecordsFailed tableName InsertRecordFailed), fm1, w1, tx)
         | Some tx1 \<Rightarrow> insert_flat env rest (fm1, w1, tx1))"

text \<open>The value bound for the \<open>j\<close>-th entry of a record when the clock has been read \<open>k\<close> times.\<close>

definition bound_at :: "(nat \<Rightarrow> nat) \<Rightarrow> nat \<Rightarrow> row \<Rightarrow> nat \<Rightarrow> val" where
  "bound_at now k r j =
     (if snd (r ! j) = VStr ''NOW()'' then VTime (now (k + now_tokens (take j r))) else snd (r ! j))"

subsection \<open>The WHERE clause as the specification words it\<close>

text \<open>
  Each tracked tuple contributes one group of \<open>column = $n\<close> conditions over the
  configured key columns it holds, joined with AND; the groups are joined with OR; the
  parameters are numbered from 1 through the whole clause and the values follow in the
  same order. A tuple that holds none of the configured key columns contributes nothing.
\<close>

definition present_keys :: "string list \<Rightarrow> key_tuple \<Rightarrow> string list" where
  "present_keys primaryKeys tuple = filter (\<lambda>pk. tuple pk \<noteq> None) primaryKeys"

definition group_values :: "string list \<Rightarrow> key_tuple \<Rightarrow> val list" where
  "group_values primaryKeys tuple = map (\<lambda>pk. the (tuple pk)) (present_keys primaryKeys tuple)"

definition spec_conditions :: "nat \<Rightarrow> string list \<Rightarrow> string list" where
  "spec_conditions start cols =
     map (\<lambda>(c, n). c @ '' = $'' @ sprint_d n) (zip cols [start ..< start + length cols])"

fun spec_groups :: "nat \<Rightarrow> string list list \<Rightarrow> string list" where
  "spec_groups start [] = []"
| "spec_groups start (cols # rest) =
     (''('' @ join (spec_conditions start cols) '' AND '' @ '')'')
       # spec_groups (start + length cols) rest"

definition key_groups :: "string list \<Rightarrow> key_tuple list \<Rightarrow> string list list" where
  "key_groups primaryKeys tuples = filter (\<lambda>g. g \<noteq> []) (map (present_keys primaryKeys) tuples)"

definition spec_values :: "string list \<Rightarrow> key_tuple list \<Rightarrow> val list" where
  "spec_values primaryKeys tuples = concat (map (group_values primaryKeys) tuples)"

definition tracked :: "FixtureManager \<Rightarrow> string \<Rightarrow> key_tuple list" where
  "tracked fm tableName = (case insertedRecords fm tableName of None \<Rightarrow> [] | Some l \<Rightarrow> l)"

definition spec_delete :: "FixtureManager \<Rightarrow> string \<Rightarrow> string \<times> val list" where
  "spec_delete fm tableName =
     (''DELETE FROM '' @ tableName @ '' WHERE ''
        @ join (spec_groups 1 (key_groups (getPrimaryKeys fm tableName) (tracked fm tableName))) '' OR '',
      spec_values (getPrimaryKeys fm tableName) (tracked fm tableName))"

definition has_group :: "FixtureManager \<Rightarrow> string \<Rightarrow> bool" where
  "has_group fm tableName = (key_groups (getPrimaryKeys fm tableName) (tracked fm tableName) \<noteq> [])"

definition delete_plan :: "FixtureManager \<Rightarrow> string list \<Rightarrow> (string \<times> val list) list" where
  "delete_plan fm order = map (spec_delete fm) (filter (has_group fm) order)"

section \<open>Concrete inputs\<close>

text \<open>
  A database that keeps the journal of the statements applied to it, some fixture files,
  a directory \<open>seq\<close> with three of them and a text file, and a clock that starts at 1000.
\<close>

type_synonym journal = "(string \<times> val list) list"

definition users_row :: row where
  "users_row = [(''id'', VInt 1), (''name'', VStr ''a'')]"

definition orders_row :: row where
  "orders_row = [(''id'', VInt 7), (''total'', VStr ''x'')]"

definition events_row :: row where
  "events_row = [(''created_at'', VStr ''NOW()''), (''name'', VStr ''e'')]"

definition logs_row :: row where
  "logs_row = [(''msg'', VStr ''hi'')]"

definition users_fixtures :: TableFixtures where
  "users_fixtures = [(''users'', [users_row])]"

definition both_fixtures :: TableFixtures where
  "both_fixtures = [(''users'', [users_row]), (''orders'', [orders_row])]"

definition events_fixtures :: TableFixtures where
  "events_fixtures = [(''events'', [events_row])]"

definition logs_fixtures :: TableFixtures where
  "logs_fixtures = [(''logs'', [logs_row])]"

definition demo_env :: "journal env" where
  "demo_env =
     \<lparr>sql_begin = (\<lambda>w. True),
      sql_exec = (\<lambda>query vals db. Some (db @ [(query, vals)])),
      sql_commit = (\<lambda>w tx. True),
      time_now = (\<lambda>k. 1000 + k),
      os_read_file = (\<lambda>p.
        if p = ''fx/users.yml'' then Some ''users: [{id: 1, name: a}]''
        else if p = ''fx/both.yml'' then Some ''users: [{id: 1, name: a}], orders: [{id: 7, total: x}]''
        else if p = ''fx/events.yml'' then Some ''events: [{created_at: NOW(), name: e}]''
        else if p = ''fx/logs.yml'' then Some ''logs: [{msg: hi}]''
        else if p = ''seq/a_logs.yml'' then Some ''logs: [{msg: hi}]''
        else if p = ''seq/c_users.yml'' then Some ''users: [{id: 1, name: a}]''
        else if p = ''seq/d_both.yml'' then Some ''users: [{id: 1, name: a}], orders: [{id: 7, total: x}]''
        else None),
      yaml_unmarshal = (\<lambda>c.
        if c = ''users: [{id: 1, name: a}]'' then Some users_fixtures
        else if c = ''users: [{id: 1, name: a}], orders: [{id: 7, total: x}]'' then Some both_fixtures
        else if c = ''events: [{created_at: NOW(), name: e}]'' then Some events_fixtures
        else if c = ''logs: [{msg: hi}]'' then Some logs_fixtures
        else None),
      os_read_dir = (\<lambda>d.
        if d = ''seq''
        then Some [(''a_logs.yml'', False), (''b_notes.txt'', False), (''c_users.yml'', False),
                   (''d_both.yml'', False)]
        else None),
      path_join = (\<lambda>d n. d @ ''/'' @ n)\<rparr>"

text \<open>A driver that rejects every statement once the transaction holds one.\<close>

definition second_fails_env :: "journal env" where
  "second_fails_env =
     demo_env\<lparr>sql_exec := (\<lambda>query vals db. if db = [] then Some [(query, vals)] else None)\<rparr>"

text \<open>A driver that rejects every statement, and one whose commit fails.\<close>

definition exec_fails_env :: "journal env" where
  "exec_fails_env = demo_env\<lparr>sql_exec := (\<lambda>query vals db. None)\<rparr>"

definition commit_fails_env :: "journal env" where
  "commit_fails_env = demo_env\<lparr>sql_commit := (\<lambda>w tx. False)\<rparr>"

definition world0 :: "journal world" where
  "world0 = \<lparr>store = [], calls = [], ticks = 0\<rparr>"

text \<open>A manager that tracks one row of \<open>users\<close>.\<close>

definition users_manager :: FixtureManager where
  "users_manager = NewFixtureManager\<lparr>insertedRecords := [''users'' \<mapsto> [[''id'' \<mapsto> VInt 1]]]\<rparr>"

text \<open>A manager that tracks one row of \<open>users\<close> and one of \<open>orders\<close>.\<close>

definition both_manager :: FixtureManager where
  "both_manager = NewFixtureManager
     \<lparr>insertedRecords := [''users'' \<mapsto> [[''id'' \<mapsto> VInt 1]], ''orders'' \<mapsto> [[''id'' \<mapsto> VInt 7]]]\<rparr>"

text \<open>
  A manager whose table \<open>memberships\<close> has a composite key and two tracked rows, and a
  manager whose table \<open>users\<close> was given another key after its row was tracked.
\<close>

definition memberships_manager :: FixtureManager where
  "memberships_manager = (ConfigureTable ''memberships'' [''user_id'', ''org_id''] NewFixtureManager)
     \<lparr>insertedRecords := [''memberships'' \<mapsto>
        [[''user_id'' \<mapsto> VInt 1, ''org_id'' \<mapsto> VInt 10],
         [''user_id'' \<mapsto> VInt 1, ''org_id'' \<mapsto> VInt 20]]]\<rparr>"

definition rekeyed_manager :: FixtureManager where
  "rekeyed_manager = ConfigureTable ''users'' [''uuid''] users_manager"



text \<open>
  The world after the first file of \<open>seq\<close> is loaded, and after the load of its next
  fixture file has failed.
\<close>

definition seq_world1 :: "journal world" where
  "seq_world1 =
     \<lparr>store = [(''INSERT INTO logs (msg) VALUES ($1)'', [VStr ''hi''])],
      calls = [ReadDir ''seq'', ReadFile ''seq/a_logs.yml'', Begin,
               Exec ''INSERT INTO logs (msg) VALUES ($1)'' [VStr ''hi''], Commit, Rollback],
      ticks = 0\<rparr>"

definition seq_world2 :: "journal world" where
  "seq_world2 =
     \<lparr>store = [(''INSERT INTO logs (msg) VALUES ($1)'', [VStr ''hi''])],
      calls = [ReadDir ''seq'', ReadFile ''seq/a_logs.yml'', Begin,
               Exec ''INSERT INTO logs (msg) VALUES ($1)'' [VStr ''hi''], Commit, Rollback,
               ReadFile ''seq/c_users.yml'', Begin,
               Exec ''INSERT INTO users (id, name) VALUES ($1, $2)'' [VInt 1, VStr ''a''],
               Rollback],
      ticks = 0\<rparr>"

named_theorems demo \<open>unfolding of the model on concrete inputs\<close>

section \<open>Evaluation of the model\<close>

lemma sprint_d_small: "n < 10 \<Longrightarrow> sprint_d n = [digit n]"
  by (simp add: sprint_d.simps)

lemmas [demo] =
  LoadYAMLFixtures_def CleanupFixtures_def NewFixtureManager_def NewFixtureManagerWithConfig_def
  DefaultFileExtensions_def getPrimaryKeys_def track_def bind_value_def insert_query_def
  delete_query_def log_call_def Let_def sprint_d_small digit_def demo_env_def world0_def
  users_manager_def users_row_def orders_row_def events_row_def logs_row_def
  users_fixtures_def both_fixtures_def events_fixtures_def logs_fixtures_def

section \<open>Cleanup: failures keep the tracking map, and an empty map is a no-op\<close>

lemma CleanupFixtures_cases:
  "CleanupFixtures env order (fm, w) = (res, fm', w') \<Longrightarrow>
     (res = None \<and> fm' = fm \<and> insertedRecords fm = Map.empty) \<or>
     (res = None \<and> fm' = fm\<lparr>insertedRecords := Map.empty\<rparr>) \<or>
     (res \<noteq> None \<and> fm' = fm)"
  by (auto simp: CleanupFixtures_def Let_def split: if_splits prod.splits option.splits)

lemma demo_cleanup_delete_fails:
  "CleanupFixtures exec_fails_env [''users''] (users_manager, world0) =
     (Some (CleanupTableFailed ''users''), users_manager,
      \<lparr>store = [], calls = [Begin, Exec ''DELETE FROM users WHERE (id = $1)'' [VInt 1], Rollback],
       ticks = 0\<rparr>)"
  by (simp add: demo exec_fails_env_def)

lemma demo_cleanup_commit_fails:
  "CleanupFixtures commit_fails_env [''users''] (users_manager, world0) =
     (Some CleanupCommitFailed, users_manager,
      \<lparr>store = [],
       calls = [Begin, Exec ''DELETE FROM users WHERE (id = $1)'' [VInt 1], Commit, Rollback],
       ticks = 0\<rparr>)"
  by (simp add: demo commit_fails_env_def)

lemma demo_cleanup_ok:
  "CleanupFixtures demo_env [''users''] (users_manager, world0) =
     (None, NewFixtureManager,
      \<lparr>store = [(''DELETE FROM users WHERE (id = $1)'', [VInt 1])],
       calls = [Begin, Exec ''DELETE FROM users WHERE (id = $1)'' [VInt 1], Commit, Rollback],
       ticks = 0\<rparr>)"
  by (simp add: demo)

text \<open>
  C1. Whenever \<open>CleanupFixtures\<close> returns an error (the transaction cannot begin, a
  DELETE fails or the commit fails), the tracking map after the call is the tracking
  map before it; the whole manager is unchanged, so a retry builds the same deletes.
\<close>

theorem CleanupFixtures_error_keeps_tracking:
  "CleanupFixtures env order (fm, w) = (Some e, fm', w') \<Longrightarrow>
     insertedRecords fm' = insertedRecords fm \<and> fm' = fm"
  by (auto dest: CleanupFixtures_cases)

theorem CleanupFixtures_error_keeps_tracking_witness:
  "CleanupFixtures exec_fails_env [''users''] (users_manager, world0) =
     (Some (CleanupTableFailed ''users''), users_manager,
      \<lparr>store = [], calls = [Begin, Exec ''DELETE FROM users WHERE (id = $1)'' [VInt 1], Rollback],
       ticks = 0\<rparr>)
   \<and> CleanupFixtures commit_fails_env [''users''] (users_manager, world0) =
     (Some CleanupCommitFailed, users_manager,
      \<lparr>store = [],
       calls = [Begin, Exec ''DELETE FROM users WHERE (id = $1)'' [VInt 1], Commit, Rollback],
       ticks = 0\<rparr>)
   \<and> insertedRecords users_manager = [''users'' \<mapsto> [[''id'' \<mapsto> VInt 1]]]"
  using CleanupFixtures_error_keeps_tracking [OF demo_cleanup_delete_fails]
    CleanupFixtures_error_keeps_tracking [OF demo_cleanup_commit_fails]
    demo_cleanup_delete_fails demo_cleanup_commit_fails
  by (simp add: users_manager_def)

text \<open>
  C5. With an empty tracking map \<open>CleanupFixtures\<close> succeeds and leaves the manager and
  the world as they are: no call is made on the database, so no transaction is begun and
  no DELETE is issued. After a successful cleanup the map is empty, so a second call,
  whatever order it would visit the map in, succeeds and changes nothing.
\<close>

theorem CleanupFixtures_idempotent:
  "(insertedRecords fm = Map.empty \<longrightarrow> CleanupFixtures env order (fm, w) = (None, fm, w)) \<and>
   (CleanupFixtures env order (fm, w) = (None, fm', w') \<longrightarrow>
      CleanupFixtures env order' (fm', w') = (None, fm', w'))"
proof (intro conjI impI)
  assume "insertedRecords fm = Map.empty"
  then show "CleanupFixtures env order (fm, w) = (None, fm, w)"
    by (simp add: CleanupFixtures_def)
next
  assume "CleanupFixtures env order (fm, w) = (None, fm', w')"
  then have "insertedRecords fm' = Map.empty"
    by (auto dest: CleanupFixtures_cases)
  then show "CleanupFixtures env order' (fm', w') = (None, fm', w')"
    by (simp add: CleanupFixtures_def)
qed

theorem CleanupFixtures_idempotent_witness:
  "insertedRecords NewFixtureManager = Map.empty
   \<and> CleanupFixtures demo_env [] (NewFixtureManager, world0) = (None, NewFixtureManager, world0)
   \<and> CleanupFixtures demo_env [''users''] (users_manager, world0) =
       (None, NewFixtureManager,
        \<lparr>store = [(''DELETE FROM users WHERE (id = $1)'', [VInt 1])],
         calls = [Begin, Exec ''DELETE FROM users WHERE (id = $1)'' [VInt 1], Commit, Rollback],
         ticks = 0\<rparr>)
   \<and> CleanupFixtures demo_env []
        (NewFixtureManager,
         \<lparr>store = [(''DELETE FROM users WHERE (id = $1)'', [VInt 1])],
          calls = [Begin, Exec ''DELETE FROM users WHERE (id = $1)'' [VInt 1], Commit, Rollback],
          ticks = 0\<rparr>) =
       (None, NewFixtureManager,
        \<lparr>store = [(''DELETE FROM users WHERE (id = $1)'', [VInt 1])],
         calls = [Begin, Exec ''DELETE FROM users WHERE (id = $1)'' [VInt 1], Commit, Rollback],
         ticks = 0\<rparr>)"
proof -
  have e: "insertedRecords NewFixtureManager = Map.empty"
    by (simp add: NewFixtureManager_def NewFixtureManagerWithConfig_def)
  note t1 = CleanupFixtures_idempotent [of NewFixtureManager demo_env "[]" world0
      NewFixtureManager world0 "[]", THEN conjunct1, rule_format, OF e]
  note t2 = CleanupFixtures_idempotent [THEN conjunct2, rule_format, OF demo_cleanup_ok, of "[]"]
  show ?thesis using e t1 t2 demo_cleanup_ok by simp
qed

section \<open>The binding loop\<close>

lemma bind_value_eq:
  "bind_value now k v = (if v = VStr ''NOW()'' then (VTime (now k), Suc k) else (v, k))"
  by (cases v) (simp_all add: bind_value_def)

lemma now_tokens_Cons:
  "now_tokens (e # r) = (if snd e = VStr ''NOW()'' then Suc (now_tokens r) else now_tokens r)"
  by (simp add: now_tokens_def)

lemma now_tokens_Nil: "now_tokens [] = 0"
  by (simp add: now_tokens_def)

lemma bound_at_0: "bound_at now k (e # r) 0 = fst (bind_value now k (snd e))"
  by (simp add: bound_at_def bind_value_eq now_tokens_Nil)

lemma bound_at_Suc:
  "bound_at now k (e # r) (Suc j) = bound_at now (snd (bind_value now k (snd e))) r j"
  by (simp add: bound_at_def bind_value_eq now_tokens_Cons)

lemma bind_loop_acc:
  "bind_loop now r (cols, phs, vals, i, k) =
     (cols @ map fst r,
      phs @ map (\<lambda>n. ''$'' @ sprint_d n) [i ..< i + length r],
      vals @ map (bound_at now k r) [0 ..< length r],
      i + length r,
      k + now_tokens r)"
proof (induction r arbitrary: cols phs vals i k)
  case Nil
  then show ?case by (simp add: now_tokens_Nil)
next
  case (Cons e r)
  obtain c v where e: "e = (c, v)" by (cases e)
  have up: "[i ..< i + length (e # r)] = i # [Suc i ..< Suc i + length r]"
    using upt_rec [of i "i + length (e # r)"] by simp
  have mp: "map (bound_at now k (e # r)) [0 ..< length (e # r)] =
      fst (bind_value now k v) # map (bound_at now (snd (bind_value now k v)) r) [0 ..< length r]"
    using e by (simp add: map_upt_Suc bound_at_0 bound_at_Suc del: upt_Suc)
  show ?case
    unfolding up mp
    by (simp add: e Cons.IH bind_value_eq now_tokens_Cons split: prod.splits)
qed

section \<open>The insert loops\<close>

lemma insertRecords_step:
  "insertRecords env t (r # rs) (fm, w, tx) =
     (let s = insert_stmt (time_now env) (ticks w) t r;
          fm1 = track_record fm (t, r);
          w1 = log_call (exec_call s) (w\<lparr>ticks := ticks_after (time_now env) (ticks w) r\<rparr>)
      in case sql_exec env (fst s) (snd s) tx of
           None \<Rightarrow> (Some InsertRecordFailed, fm1, w1, tx)
         | Some tx1 \<Rightarrow> insertRecords env t rs (fm1, w1, tx1))"
  by (auto simp: insert_stmt_def ticks_after_def track_record_def pk_tuple_def exec_call_def
      Let_def split: prod.splits option.splits)

lemma insert_flat_append:
  "insert_flat env (map (Pair t) rs @ rest) (fm, w, tx) =
     (case insertRecords env t rs (fm, w, tx) of
        (Some e, s') \<Rightarrow> (Some (InsertRecordsFailed t e), s')
      | (None, s') \<Rightarrow> insert_flat env rest s')"
proof (induction rs arbitrary: fm w tx)
  case Nil
  then show ?case by simp
next
  case (Cons r rs)
  show ?case
    by (simp add: insertRecords_step Cons.IH Let_def del: insertRecords.simps split: option.splits)
qed

lemma insert_tables_flat:
  "insert_tables env fixtures (fm, w, tx) = insert_flat env (file_records fixtures) (fm, w, tx)"
proof (induction fixtures arbitrary: fm w tx)
  case Nil
  then show ?case by (simp add: file_records_def)
next
  case (Cons a fixtures)
  obtain t rs where a: "a = (t, rs)" by (cases a)
  have fr: "file_records (a # fixtures) = map (Pair t) rs @ file_records fixtures"
    by (simp add: file_records_def a)
  show ?case
    unfolding fr insert_flat_append
    by (auto simp: a Cons.IH split: prod.splits option.splits)
qed

lemma length_file_stmts: "length (file_stmts now k recs) = length recs"
  by (induction recs arbitrary: k) auto

lemma insert_flat_run:
  "insert_flat env recs (fm, w, tx) = (res, fm', w', tx') \<Longrightarrow>
   \<exists>n. n \<le> length recs \<and>
     calls w' = calls w @ map exec_call (take n (file_stmts (time_now env) (ticks w) recs)) \<and>
     store w' = store w \<and>
     ticks w' = ticks_after_all (time_now env) (ticks w) (take n recs) \<and>
     fm' = foldl track_record fm (take n recs) \<and>
     (res = None \<longrightarrow> n = length recs \<and>
        run_stmts env (file_stmts (time_now env) (ticks w) recs) tx = Some tx') \<and>
     (res \<noteq> None \<longrightarrow> 0 < n \<and>
        res = Some (InsertRecordsFailed (fst (recs ! (n - 1))) InsertRecordFailed) \<and>
        run_stmts env (take (n - 1) (file_stmts (time_now env) (ticks w) recs)) tx = Some tx' \<and>
        run_stmts env (take n (file_stmts (time_now env) (ticks w) recs)) tx = None)"
proof (induction recs arbitrary: fm w tx)
  case Nil
  then show ?case by auto
next
  case (Cons a recs)
  obtain t r where a: "a = (t, r)" by (cases a)
  let ?now = "time_now env"
  let ?s = "insert_stmt ?now (ticks w) t r"
  let ?fm1 = "track_record fm (t, r)"
  let ?w1 = "log_call (exec_call ?s) (w\<lparr>ticks := ticks_after ?now (ticks w) r\<rparr>)"
  show ?case
  proof (cases "sql_exec env (fst ?s) (snd ?s) tx")
    case None
    with Cons.prems have r: "res = Some (InsertRecordsFailed t InsertRecordFailed)"
      "fm' = ?fm1" "w' = ?w1" "tx' = tx"
      by (simp_all add: a Let_def)
    have ex: "run_stmts env [?s] tx = None"
      using None by (cases ?s) simp
    show ?thesis
      by (rule exI [of _ 1]) (simp add: r a log_call_def ex)
  next
    case (Some tx1)
    with Cons.prems have "insert_flat env recs (?fm1, ?w1, tx1) = (res, fm', w', tx')"
      by (simp add: a Let_def)
    from Cons.IH [OF this] obtain n where n: "n \<le> length recs"
      "calls w' = calls ?w1 @ map exec_call (take n (file_stmts ?now (ticks ?w1) recs))"
      "store w' = store ?w1"
      "ticks w' = ticks_after_all ?now (ticks ?w1) (take n recs)"
      "fm' = foldl track_record ?fm1 (take n recs)"
      "res = None \<longrightarrow> n = length recs \<and>
        run_stmts env (file_stmts ?now (ticks ?w1) recs) tx1 = Some tx'"
      "res \<noteq> None \<longrightarrow> 0 < n \<and>
        res = Some (InsertRecordsFailed (fst (recs ! (n - 1))) InsertRecordFailed) \<and>
        run_stmts env (take (n - 1) (file_stmts ?now (ticks ?w1) recs)) tx1 = Some tx' \<and>
        run_stmts env (take n (file_stmts ?now (ticks ?w1) recs)) tx1 = None"
      by blast
    have tk: "ticks ?w1 = ticks_after ?now (ticks w) r"
      by (simp add: log_call_def)
    have st: "\<And>l. run_stmts env (?s # l) tx = run_stmts env l tx1"
      using Some by (cases ?s) simp
    show ?thesis
    proof (rule exI [of _ "Suc n"], intro conjI)
      show "Suc n \<le> length (a # recs)" using n(1) by simp
      show "calls w' = calls w @ map exec_call (take (Suc n) (file_stmts ?now (ticks w) (a # recs)))"
        using n(2) by (simp add: a tk log_call_def)
      show "store w' = store w" using n(3) by (simp add: log_call_def)
      show "ticks w' = ticks_after_all ?now (ticks w) (take (Suc n) (a # recs))"
        using n(4) by (simp add: a tk)
      show "fm' = foldl track_record fm (take (Suc n) (a # recs))"
        using n(5) by (simp add: a)
      show "res = None \<longrightarrow> Suc n = length (a # recs) \<and>
          run_stmts env (file_stmts ?now (ticks w) (a # recs)) tx = Some tx'"
        using n(6) by (simp add: a tk st)
      show "res \<noteq> None \<longrightarrow> 0 < Suc n \<and>
          res = Some (InsertRecordsFailed (fst ((a # recs) ! (Suc n - 1))) InsertRecordFailed) \<and>
          run_stmts env (take (Suc n - 1) (file_stmts ?now (ticks w) (a # recs))) tx = Some tx' \<and>
          run_stmts env (take (Suc n) (file_stmts ?now (ticks w) (a # recs))) tx = None"
      proof
        assume ne: "res \<noteq> None"
        with n(7) have pos: "0 < n" and
          e: "res = Some (InsertRecordsFailed (fst (recs ! (n - 1))) InsertRecordFailed)" and
          r1: "run_stmts env (take (n - 1) (file_stmts ?now (ticks ?w1) recs)) tx1 = Some tx'" and
          r2: "run_stmts env (take n (file_stmts ?now (ticks ?w1) recs)) tx1 = None"
          by auto
        from pos obtain m where m: "n = Suc m" by (cases n) auto
        show "0 < Suc n \<and>
          res = Some (InsertRecordsFailed (fst ((a # recs) ! (Suc n - 1))) InsertRecordFailed) \<and>
          run_stmts env (take (Suc n - 1) (file_stmts ?now (ticks w) (a # recs))) tx = Some tx' \<and>
          run_stmts env (take (Suc n) (file_stmts ?now (ticks w) (a # recs))) tx = None"
          using e r1 r2 by (simp add: a tk st m)
      qed
    qed
  qed
qed

section \<open>The delete statements\<close>

lemma spec_conditions_Nil: "spec_conditions p [] = []"
  by (simp add: spec_conditions_def)

lemma spec_conditions_Cons:
  "spec_conditions p (c # cols) = (c @ '' = $'' @ sprint_d p) # spec_conditions (Suc p) cols"
  using upt_rec [of p "p + length (c # cols)"] by (simp add: spec_conditions_def)

lemma record_conditions_acc:
  "record_conditions pks r (rc, rv, p) =
     (rc @ spec_conditions p (present_keys pks r), rv @ group_values pks r,
      p + length (present_keys pks r))"
proof (induction pks arbitrary: rc rv p)
  case Nil
  then show ?case by (simp add: present_keys_def group_values_def spec_conditions_Nil)
next
  case (Cons pk pks)
  show ?case
  proof (cases "r pk")
    case None
    then show ?thesis
      using Cons.IH by (simp add: present_keys_def group_values_def)
  next
    case (Some v)
    have pk: "present_keys (pk # pks) r = pk # present_keys pks r"
      using Some by (simp add: present_keys_def)
    have gv: "group_values (pk # pks) r = v # group_values pks r"
      using Some by (simp add: group_values_def present_keys_def)
    show ?thesis
      unfolding pk gv by (simp add: Some Cons.IH spec_conditions_Cons)
  qed
qed

lemma length_group_values: "length (group_values pks r) = length (present_keys pks r)"
  by (simp add: group_values_def)

lemma spec_conditions_empty: "(spec_conditions p cols = []) = (cols = [])"
  by (cases cols) (simp_all add: spec_conditions_Nil spec_conditions_Cons)

lemma table_conditions_acc:
  "table_conditions pks rs (conds, vals, p) =
     (conds @ spec_groups p (key_groups pks rs), vals @ spec_values pks rs,
      p + length (spec_values pks rs))"
proof (induction rs arbitrary: conds vals p)
  case Nil
  then show ?case by (simp add: key_groups_def spec_values_def)
next
  case (Cons r rs)
  show ?case
  proof (cases "present_keys pks r = []")
    case True
    then have gv: "group_values pks r = []"
      by (simp add: group_values_def)
    show ?thesis
      using True gv by (simp add: record_conditions_acc Cons.IH spec_conditions_Nil key_groups_def spec_values_def)
  next
    case False
    then have ne: "spec_conditions p (present_keys pks r) \<noteq> []"
      by (simp add: spec_conditions_empty)
    have kg: "key_groups pks (r # rs) = present_keys pks r # key_groups pks rs"
      using False by (simp add: key_groups_def)
    have sv: "spec_values pks (r # rs) = group_values pks r @ spec_values pks rs"
      by (simp add: spec_values_def)
    show ?thesis
      unfolding kg sv
      using ne by (simp add: record_conditions_acc Cons.IH length_group_values)
  qed
qed

lemma spec_groups_empty: "(spec_groups p gs = []) = (gs = [])"
  by (cases gs) simp_all

lemma cleanup_tables_step:
  "cleanup_tables env fm (t # rest) (w, tx) =
     (if has_group fm t
      then (let s = spec_delete fm t; w1 = log_call (exec_call s) w
            in case sql_exec env (fst s) (snd s) tx of
                 None \<Rightarrow> (Some (CleanupTableFailed t), w1, tx)
               | Some tx1 \<Rightarrow> cleanup_tables env fm rest (w1, tx1))
      else cleanup_tables env fm rest (w, tx))"
proof (cases "insertedRecords fm t")
  case None
  then have "\<not> has_group fm t"
    by (simp add: has_group_def tracked_def key_groups_def)
  then show ?thesis using None by simp
next
  case (Some records)
  then have tr: "tracked fm t = records" by (simp add: tracked_def)
  show ?thesis
  proof (cases "records = []")
    case True
    then have "\<not> has_group fm t"
      using tr by (simp add: has_group_def key_groups_def)
    then show ?thesis using Some True by simp
  next
    case False
    show ?thesis
      using Some False
      by (auto simp: table_conditions_acc has_group_def tr spec_groups_empty spec_delete_def
          delete_query_def exec_call_def Let_def split: option.splits)
  qed
qed

lemma cleanup_tables_run:
  "cleanup_tables env fm order (w, tx) = (res, w', tx') \<Longrightarrow>
   \<exists>n. n \<le> length (delete_plan fm order) \<and>
     calls w' = calls w @ map exec_call (take n (delete_plan fm order)) \<and>
     store w' = store w \<and> ticks w' = ticks w \<and>
     (res = None \<longrightarrow> n = length (delete_plan fm order) \<and>
        run_stmts env (delete_plan fm order) tx = Some tx') \<and>
     (res \<noteq> None \<longrightarrow> 0 < n \<and>
        res = Some (CleanupTableFailed (filter (has_group fm) order ! (n - 1))) \<and>
        run_stmts env (take (n - 1) (delete_plan fm order)) tx = Some tx' \<and>
        run_stmts env (take n (delete_plan fm order)) tx = None)"
proof (induction order arbitrary: w tx)
  case Nil
  then show ?case by (auto simp: delete_plan_def)
next
  case (Cons t order)
  show ?case
  proof (cases "has_group fm t")
    case False
    then have "cleanup_tables env fm order (w, tx) = (res, w', tx')"
      using Cons.prems by (simp add: cleanup_tables_step del: cleanup_tables.simps)
    from Cons.IH [OF this] show ?thesis
      using False by (simp add: delete_plan_def)
  next
    case True
    let ?s = "spec_delete fm t"
    let ?w1 = "log_call (exec_call ?s) w"
    have plan: "delete_plan fm (t # order) = ?s # delete_plan fm order"
      using True by (simp add: delete_plan_def)
    have flt: "filter (has_group fm) (t # order) = t # filter (has_group fm) order"
      using True by simp
    show ?thesis
    proof (cases "sql_exec env (fst ?s) (snd ?s) tx")
      case None
      with Cons.prems True have r: "res = Some (CleanupTableFailed t)" "w' = ?w1" "tx' = tx"
        by (simp_all add: cleanup_tables_step Let_def del: cleanup_tables.simps)
      have ex: "run_stmts env [?s] tx = None"
        using None by (cases ?s) simp
      show ?thesis
        unfolding plan flt
        by (rule exI [of _ 1]) (simp add: r log_call_def ex)
    next
      case (Some tx1)
      with Cons.prems True have "cleanup_tables env fm order (?w1, tx1) = (res, w', tx')"
        by (simp add: cleanup_tables_step Let_def del: cleanup_tables.simps)
      from Cons.IH [OF this] obtain n where n: "n \<le> length (delete_plan fm order)"
        "calls w' = calls ?w1 @ map exec_call (take n (delete_plan fm order))"
        "store w' = store ?w1" "ticks w' = ticks ?w1"
        "res = None \<longrightarrow> n = length (delete_plan fm order) \<and>
           run_stmts env (delete_plan fm order) tx1 = Some tx'"
        "res \<noteq> None \<longrightarrow> 0 < n \<and>
           res = Some (CleanupTableFailed (filter (has_group fm) order ! (n - 1))) \<and>
           run_stmts env (take (n - 1) (delete_plan fm order)) tx1 = Some tx' \<and>
           run_stmts env (take n (delete_plan fm order)) tx1 = None"
        by blast
      have st: "\<And>l. run_stmts env (?s # l) tx = run_stmts env l tx1"
        using Some by (cases ?s) simp
      show ?thesis
        unfolding plan flt
      proof (rule exI [of _ "Suc n"], intro conjI)
        show "Suc n \<le> length (?s # delete_plan fm order)" using n(1) by simp
        show "calls w' = calls w @ map exec_call (take (Suc n) (?s # delete_plan fm order))"
          using n(2) by (simp add: log_call_def)
        show "store w' = store w" using n(3) by (simp add: log_call_def)
        show "ticks w' = ticks w" using n(4) by (simp add: log_call_def)
        show "res = None \<longrightarrow> Suc n = length (?s # delete_plan fm order) \<and>
            run_stmts env (?s # delete_plan fm order) tx = Some tx'"
          using n(5) by (simp add: st)
        show "res \<noteq> None \<longrightarrow> 0 < Suc n \<and>
            res = Some (CleanupTableFailed ((t # filter (has_group fm) order) ! (Suc n - 1))) \<and>
            run_stmts env (take (Suc n - 1) (?s # delete_plan fm order)) tx = Some tx' \<and>
            run_stmts env (take (Suc n) (?s # delete_plan fm order)) tx = None"
        proof
          assume "res \<noteq> None"
          with n(6) have pos: "0 < n" and
            e: "res = Some (CleanupTableFailed (filter (has_group fm) order ! (n - 1)))" and
            r1: "run_stmts env (take (n - 1) (delete_plan fm order)) tx1 = Some tx'" and
            r2: "run_stmts env (take n (delete_plan fm order)) tx1 = None"
            by auto
          from pos obtain m where m: "n = Suc m" by (cases n) auto
          show "0 < Suc n \<and>
            res = Some (CleanupTableFailed ((t # filter (has_group fm) order) ! (Suc n - 1))) \<and>
            run_stmts env (take (Suc n - 1) (?s # delete_plan fm order)) tx = Some tx' \<and>
            run_stmts env (take (Suc n) (?s # delete_plan fm order)) tx = None"
            using e r1 r2 by (simp add: st m)
        qed
      qed
    qed
  qed
qed

section \<open>The statement of one record\<close>


lemma ticks_after_eq: "ticks_after now k r = k + now_tokens r"
  by (simp add: ticks_after_def bind_loop_acc)












section \<open>Loading one file\<close>

lemma run_stmts_take_None:
  "run_stmts env (take n l) tx = None \<Longrightarrow> run_stmts env l tx = None"
proof (induction l arbitrary: n tx)
  case Nil
  then show ?case by simp
next
  case (Cons s l)
  obtain q vs where s: "s = (q, vs)" by (cases s)
  from Cons.prems obtain m where m: "n = Suc m" by (cases n) auto
  show ?case
    using Cons.prems Cons.IH [of m] by (auto simp: s m split: option.splits)
qed

lemma LoadYAMLFixtures_unfold:
  assumes rd: "os_read_file env path = Some content"
    and um: "yaml_unmarshal env content = Some fixtures"
    and bg: "sql_begin env (log_call (ReadFile path) w)"
    and run: "LoadYAMLFixtures env path (fm, w) = (res, fm', w')"
  shows "\<exists>res1 w2 tx.
     insert_flat env (file_records fixtures)
       (fm, log_call Begin (log_call (ReadFile path) w), store w) = (res1, fm', w2, tx) \<and>
     (res1 \<noteq> None \<longrightarrow> res = res1 \<and> w' = log_call Rollback w2) \<and>
     (res1 = None \<longrightarrow>
        (if sql_commit env w2 tx
         then res = None \<and> w' = log_call Rollback (log_call Commit (w2\<lparr>store := tx\<rparr>))
         else res = Some CommitFailed \<and> w' = log_call Rollback (log_call Commit w2)))"
proof -
  let ?w1 = "log_call Begin (log_call (ReadFile path) w)"
  have sw: "store ?w1 = store w" by (simp add: log_call_def)
  obtain res1 fm2 w2 tx where
    f: "insert_flat env (file_records fixtures) (fm, ?w1, store w) = (res1, fm2, w2, tx)"
    by (metis prod_cases4)
  then have t: "insert_tables env fixtures (fm, ?w1, store ?w1) = (res1, fm2, w2, tx)"
    by (simp add: insert_tables_flat sw)
  show ?thesis
    using run rd um bg t f
    by (cases res1) (auto simp: LoadYAMLFixtures_def Let_def sw split: if_splits)
qed

lemma world_eqI:
  "store a = store b \<Longrightarrow> calls a = calls b \<Longrightarrow> ticks a = ticks b \<Longrightarrow> (a :: 'db world) = b"
  by simp

lemma LoadYAMLFixtures_run_ex:
  assumes rd: "os_read_file env path = Some content"
    and um: "yaml_unmarshal env content = Some fixtures"
    and bg: "sql_begin env (log_call (ReadFile path) w)"
    and run: "LoadYAMLFixtures env path (fm, w) = (res, fm', w')"
  shows "\<exists>n. n \<le> length (file_records fixtures) \<and>
     fm' = foldl track_record fm (take n (file_records fixtures)) \<and>
     ticks w' = ticks_after_all (time_now env) (ticks w) (take n (file_records fixtures)) \<and>
     (run_stmts env (load_stmts env w fixtures) (store w) = None \<longrightarrow>
        0 < n \<and>
        run_stmts env (take (n - 1) (load_stmts env w fixtures)) (store w) \<noteq> None \<and>
        run_stmts env (take n (load_stmts env w fixtures)) (store w) = None \<and>
        res = Some (InsertRecordsFailed (fst (file_records fixtures ! (n - 1))) InsertRecordFailed) \<and>
        store w' = store w \<and>
        calls w' = calls w @ [ReadFile path, Begin]
                     @ map exec_call (take n (load_stmts env w fixtures)) @ [Rollback]) \<and>
     (\<forall>tx. run_stmts env (load_stmts env w fixtures) (store w) = Some tx \<longrightarrow>
        n = length (file_records fixtures) \<and>
        calls w' = calls w @ [ReadFile path, Begin]
                     @ map exec_call (load_stmts env w fixtures) @ [Commit, Rollback] \<and>
        (if sql_commit env
              (w\<lparr>calls := calls w @ [ReadFile path, Begin] @ map exec_call (load_stmts env w fixtures),
                 ticks := ticks_after_all (time_now env) (ticks w) (file_records fixtures)\<rparr>) tx
         then res = None \<and> store w' = tx
         else res = Some CommitFailed \<and> store w' = store w))"
proof -
  let ?recs = "file_records fixtures"
  let ?stmts = "load_stmts env w fixtures"
  let ?w1 = "log_call Begin (log_call (ReadFile path) w)"
  have w1: "ticks ?w1 = ticks w" "store ?w1 = store w" "calls ?w1 = calls w @ [ReadFile path, Begin]"
    by (simp_all add: log_call_def)
  from LoadYAMLFixtures_unfold [OF rd um bg run] obtain res1 w2 tx where
    f: "insert_flat env ?recs (fm, ?w1, store w) = (res1, fm', w2, tx)" and
    fail: "res1 \<noteq> None \<longrightarrow> res = res1 \<and> w' = log_call Rollback w2" and
    ok: "res1 = None \<longrightarrow>
        (if sql_commit env w2 tx
         then res = None \<and> w' = log_call Rollback (log_call Commit (w2\<lparr>store := tx\<rparr>))
         else res = Some CommitFailed \<and> w' = log_call Rollback (log_call Commit w2))"
    by blast
  from insert_flat_run [OF f] obtain n where n: "n \<le> length ?recs"
    "calls w2 = calls w @ [ReadFile path, Begin] @ map exec_call (take n ?stmts)"
    "store w2 = store w"
    "ticks w2 = ticks_after_all (time_now env) (ticks w) (take n ?recs)"
    "fm' = foldl track_record fm (take n ?recs)"
    "res1 = None \<longrightarrow> n = length ?recs \<and> run_stmts env ?stmts (store w) = Some tx"
    "res1 \<noteq> None \<longrightarrow> 0 < n \<and>
        res1 = Some (InsertRecordsFailed (fst (?recs ! (n - 1))) InsertRecordFailed) \<and>
        run_stmts env (take (n - 1) ?stmts) (store w) = Some tx \<and>
        run_stmts env (take n ?stmts) (store w) = None"
    unfolding w1 load_stmts_def by auto
  have tk: "ticks w' = ticks w2"
    using fail ok by (cases res1) (auto simp: log_call_def split: if_splits)
  show ?thesis
  proof (cases res1)
    case None
    with n have len: "n = length ?recs" and r: "run_stmts env ?stmts (store w) = Some tx"
      by auto
    have take_all: "take n ?stmts = ?stmts"
      by (simp add: len load_stmts_def length_file_stmts)
    have take_len: "take (length ?recs) ?stmts = ?stmts"
      by (simp add: load_stmts_def length_file_stmts)
    have w2: "w2 = w\<lparr>calls := calls w @ [ReadFile path, Begin] @ map exec_call ?stmts,
                 ticks := ticks_after_all (time_now env) (ticks w) ?recs\<rparr>"
      using n(2,3,4) unfolding take_all unfolding len by (intro world_eqI) simp_all
    show ?thesis
      using ok None n(1,5) r tk n(4) n(2) n(3)
      unfolding w2 [symmetric]
      by (intro exI [of _ n]) (auto simp: log_call_def take_len len split: if_splits)
  next
    case (Some e)
    with n have pos: "0 < n"
      and e: "res1 = Some (InsertRecordsFailed (fst (?recs ! (n - 1))) InsertRecordFailed)"
      and r1: "run_stmts env (take (n - 1) ?stmts) (store w) = Some tx"
      and r2: "run_stmts env (take n ?stmts) (store w) = None"
      by auto
    have all: "run_stmts env ?stmts (store w) = None"
      using r2 by (rule run_stmts_take_None)
    show ?thesis
      using fail Some n(1,5) tk n(4) n(2) n(3) pos e r1 r2 all
      by (intro exI [of _ n]) (auto simp: log_call_def)
  qed
qed


lemma LoadYAMLFixtures_run:
  assumes rd: "os_read_file env path = Some content"
    and um: "yaml_unmarshal env content = Some fixtures"
    and bg: "sql_begin env (log_call (ReadFile path) w)"
    and run: "LoadYAMLFixtures env path (fm, w) = (res, fm', w')"
  obtains n where "n \<le> length (file_records fixtures)"
    and "fm' = foldl track_record fm (take n (file_records fixtures))"
    and "ticks w' = ticks_after_all (time_now env) (ticks w) (take n (file_records fixtures))"
    and "run_stmts env (load_stmts env w fixtures) (store w) = None \<longrightarrow>
        0 < n \<and>
        run_stmts env (take (n - 1) (load_stmts env w fixtures)) (store w) \<noteq> None \<and>
        run_stmts env (take n (load_stmts env w fixtures)) (store w) = None \<and>
        res = Some (InsertRecordsFailed (fst (file_records fixtures ! (n - 1))) InsertRecordFailed) \<and>
        store w' = store w \<and>
        calls w' = calls w @ [ReadFile path, Begin]
                     @ map exec_call (take n (load_stmts env w fixtures)) @ [Rollback]"
    and "\<forall>tx. run_stmts env (load_stmts env w fixtures) (store w) = Some tx \<longrightarrow>
        n = length (file_records fixtures) \<and>
        calls w' = calls w @ [ReadFile path, Begin]
                     @ map exec_call (load_stmts env w fixtures) @ [Commit, Rollback] \<and>
        (if sql_commit env
              (w\<lparr>calls := calls w @ [ReadFile path, Begin] @ map exec_call (load_stmts env w fixtures),
                 ticks := ticks_after_all (time_now env) (ticks w) (file_records fixtures)\<rparr>) tx
         then res = None \<and> store w' = tx
         else res = Some CommitFailed \<and> store w' = store w)"
  using LoadYAMLFixtures_run_ex [OF rd um bg run]
  by (elim exE conjE) (rule that)

lemma file_records_table:
  "tr \<in> set (file_records fixtures) \<Longrightarrow> fst tr \<in> fst ` set fixtures"
  by (force simp: file_records_def)

lemma getPrimaryKeys_track_record [simp]:
  "getPrimaryKeys (track_record fm tr) t = getPrimaryKeys fm t"
  by (simp add: track_record_def track_def getPrimaryKeys_def)

lemma pk_tuple_track_record [simp]:
  "pk_tuple (track_record fm tr) t r = pk_tuple fm t r"
  by (simp add: pk_tuple_def)



lemma demo_load_both_fails:
  "LoadYAMLFixtures second_fails_env ''fx/both.yml'' (NewFixtureManager, world0) =
     (Some (InsertRecordsFailed ''orders'' InsertRecordFailed), both_manager,
      \<lparr>store = [],
       calls = [ReadFile ''fx/both.yml'', Begin,
                Exec ''INSERT INTO users (id, name) VALUES ($1, $2)'' [VInt 1, VStr ''a''],
                Exec ''INSERT INTO orders (id, total) VALUES ($1, $2)'' [VInt 7, VStr ''x''],
                Rollback],
       ticks = 0\<rparr>)"
  by (simp add: demo second_fails_env_def both_manager_def)

lemma demo_load_users_ok:
  "LoadYAMLFixtures demo_env ''fx/users.yml'' (NewFixtureManager, world0) =
     (None, users_manager,
      \<lparr>store = [(''INSERT INTO users (id, name) VALUES ($1, $2)'', [VInt 1, VStr ''a''])],
       calls = [ReadFile ''fx/users.yml'', Begin,
                Exec ''INSERT INTO users (id, name) VALUES ($1, $2)'' [VInt 1, VStr ''a''],
                Commit, Rollback],
       ticks = 0\<rparr>)"
  by (simp add: demo)

lemma demo_load_users_commit_fails:
  "LoadYAMLFixtures commit_fails_env ''fx/users.yml'' (NewFixtureManager, world0) =
     (Some CommitFailed, users_manager,
      \<lparr>store = [],
       calls = [ReadFile ''fx/users.yml'', Begin,
                Exec ''INSERT INTO users (id, name) VALUES ($1, $2)'' [VInt 1, VStr ''a''],
                Commit, Rollback],
       ticks = 0\<rparr>)"
  by (simp add: demo commit_fails_env_def)


lemma demo_stmts_both:
  "load_stmts second_fails_env world0 both_fixtures =
     [(''INSERT INTO users (id, name) VALUES ($1, $2)'', [VInt 1, VStr ''a'']),
      (''INSERT INTO orders (id, total) VALUES ($1, $2)'', [VInt 7, VStr ''x''])]"
  by (simp add: demo second_fails_env_def load_stmts_def file_records_def insert_stmt_def)

lemma demo_stmts_users:
  "load_stmts env world0 users_fixtures =
     [(''INSERT INTO users (id, name) VALUES ($1, $2)'', [VInt 1, VStr ''a''])]"
  by (simp add: demo load_stmts_def file_records_def insert_stmt_def)

lemma demo_run_both:
  "run_stmts second_fails_env (load_stmts second_fails_env world0 both_fixtures) (store world0) = None"
  unfolding demo_stmts_both by (simp add: demo second_fails_env_def)

lemma demo_run_users:
  "run_stmts demo_env (load_stmts demo_env world0 users_fixtures) (store world0) =
     Some [(''INSERT INTO users (id, name) VALUES ($1, $2)'', [VInt 1, VStr ''a''])]"
  unfolding demo_stmts_users by (simp add: demo)

lemma demo_run_users_commit_fails:
  "run_stmts commit_fails_env (load_stmts commit_fails_env world0 users_fixtures) (store world0) =
     Some [(''INSERT INTO users (id, name) VALUES ($1, $2)'', [VInt 1, VStr ''a''])]"
  unfolding demo_stmts_users by (simp add: demo commit_fails_env_def)

lemma demo_file_both:
  "os_read_file second_fails_env ''fx/both.yml'' =
     Some ''users: [{id: 1, name: a}], orders: [{id: 7, total: x}]''"
  "yaml_unmarshal second_fails_env ''users: [{id: 1, name: a}], orders: [{id: 7, total: x}]'' =
     Some both_fixtures"
  "sql_begin second_fails_env (log_call (ReadFile ''fx/both.yml'') world0)"
  by (simp_all add: second_fails_env_def demo_env_def)

lemma demo_file_users:
  "os_read_file demo_env ''fx/users.yml'' = Some ''users: [{id: 1, name: a}]''"
  "yaml_unmarshal demo_env ''users: [{id: 1, name: a}]'' = Some users_fixtures"
  "sql_begin demo_env (log_call (ReadFile ''fx/users.yml'') world0)"
  by (simp_all add: demo_env_def)

text \<open>
  C2, as amended. Once the file is decoded and the transaction has begun, all inserts of
  the file run in that one transaction. If some insert fails, the statements issued are
  those up to the first failing one, no commit is attempted, the call returns the insert
  error that names the table of the failing record, and the database is as before the
  call. If every insert succeeds, all of them are issued and the commit is attempted:
  when it succeeds the call succeeds and the database holds the result of the inserts,
  and when it fails the call returns the commit error and the database is as before.
\<close>

theorem LoadYAMLFixtures_atomic:
  assumes rd: "os_read_file env path = Some content"
    and um: "yaml_unmarshal env content = Some fixtures"
    and bg: "sql_begin env (log_call (ReadFile path) w)"
    and run: "LoadYAMLFixtures env path (fm, w) = (res, fm', w')"
  shows "(run_stmts env (load_stmts env w fixtures) (store w) = None \<longrightarrow>
           (\<exists>n. 0 < n \<and> n \<le> length (file_records fixtures) \<and>
              run_stmts env (take (n - 1) (load_stmts env w fixtures)) (store w) \<noteq> None \<and>
              run_stmts env (take n (load_stmts env w fixtures)) (store w) = None \<and>
              res = Some (InsertRecordsFailed (fst (file_records fixtures ! (n - 1))) InsertRecordFailed) \<and>
              fst (file_records fixtures ! (n - 1)) \<in> fst ` set fixtures \<and>
              calls w' = calls w @ [ReadFile path, Begin]
                           @ map exec_call (take n (load_stmts env w fixtures)) @ [Rollback]) \<and>
           store w' = store w) \<and>
         (\<forall>tx. run_stmts env (load_stmts env w fixtures) (store w) = Some tx \<longrightarrow>
            calls w' = calls w @ [ReadFile path, Begin]
                         @ map exec_call (load_stmts env w fixtures) @ [Commit, Rollback] \<and>
            (if sql_commit env
                  (w\<lparr>calls := calls w @ [ReadFile path, Begin]
                                 @ map exec_call (load_stmts env w fixtures),
                     ticks := ticks_after_all (time_now env) (ticks w) (file_records fixtures)\<rparr>) tx
             then res = None \<and> store w' = tx
             else res = Some CommitFailed \<and> store w' = store w))"
proof -
  from rd um bg run obtain n where
    n: "n \<le> length (file_records fixtures)" and
    "fm' = foldl track_record fm (take n (file_records fixtures))" and
    "ticks w' = ticks_after_all (time_now env) (ticks w) (take n (file_records fixtures))" and
    bad: "run_stmts env (load_stmts env w fixtures) (store w) = None \<longrightarrow>
        0 < n \<and>
        run_stmts env (take (n - 1) (load_stmts env w fixtures)) (store w) \<noteq> None \<and>
        run_stmts env (take n (load_stmts env w fixtures)) (store w) = None \<and>
        res = Some (InsertRecordsFailed (fst (file_records fixtures ! (n - 1))) InsertRecordFailed) \<and>
        store w' = store w \<and>
        calls w' = calls w @ [ReadFile path, Begin]
                     @ map exec_call (take n (load_stmts env w fixtures)) @ [Rollback]" and
    good: "\<forall>tx. run_stmts env (load_stmts env w fixtures) (store w) = Some tx \<longrightarrow>
        n = length (file_records fixtures) \<and>
        calls w' = calls w @ [ReadFile path, Begin]
                     @ map exec_call (load_stmts env w fixtures) @ [Commit, Rollback] \<and>
        (if sql_commit env
              (w\<lparr>calls := calls w @ [ReadFile path, Begin] @ map exec_call (load_stmts env w fixtures),
                 ticks := ticks_after_all (time_now env) (ticks w) (file_records fixtures)\<rparr>) tx
         then res = None \<and> store w' = tx
         else res = Some CommitFailed \<and> store w' = store w)"
    by (rule LoadYAMLFixtures_run)
  have mem: "0 < n \<Longrightarrow> fst (file_records fixtures ! (n - 1)) \<in> fst ` set fixtures"
    using n by (intro file_records_table nth_mem) simp
  show ?thesis
  proof (intro conjI impI allI)
    assume a: "run_stmts env (load_stmts env w fixtures) (store w) = None"
    with bad mem n show "\<exists>n. 0 < n \<and> n \<le> length (file_records fixtures) \<and>
              run_stmts env (take (n - 1) (load_stmts env w fixtures)) (store w) \<noteq> None \<and>
              run_stmts env (take n (load_stmts env w fixtures)) (store w) = None \<and>
              res = Some (InsertRecordsFailed (fst (file_records fixtures ! (n - 1))) InsertRecordFailed) \<and>
              fst (file_records fixtures ! (n - 1)) \<in> fst ` set fixtures \<and>
              calls w' = calls w @ [ReadFile path, Begin]
                           @ map exec_call (take n (load_stmts env w fixtures)) @ [Rollback]"
      by (intro exI [of _ n]) simp
    from a bad show "store w' = store w" by simp
  next
    fix tx
    assume a: "run_stmts env (load_stmts env w fixtures) (store w) = Some tx"
    with good show "calls w' = calls w @ [ReadFile path, Begin]
                         @ map exec_call (load_stmts env w fixtures) @ [Commit, Rollback]"
      by blast
    from a good show "if sql_commit env
                  (w\<lparr>calls := calls w @ [ReadFile path, Begin]
                                 @ map exec_call (load_stmts env w fixtures),
                     ticks := ticks_after_all (time_now env) (ticks w) (file_records fixtures)\<rparr>) tx
             then res = None \<and> store w' = tx
             else res = Some CommitFailed \<and> store w' = store w"
      by blast
  qed
qed

theorem LoadYAMLFixtures_atomic_witness:
  "run_stmts second_fails_env (load_stmts second_fails_env world0 both_fixtures) (store world0) = None
   \<and> fst (LoadYAMLFixtures second_fails_env ''fx/both.yml'' (NewFixtureManager, world0)) =
       Some (InsertRecordsFailed ''orders'' InsertRecordFailed)
   \<and> store (snd (snd (LoadYAMLFixtures second_fails_env ''fx/both.yml'' (NewFixtureManager, world0)))) =
       store world0
   \<and> run_stmts demo_env (load_stmts demo_env world0 users_fixtures) (store world0) =
       Some [(''INSERT INTO users (id, name) VALUES ($1, $2)'', [VInt 1, VStr ''a''])]
   \<and> fst (LoadYAMLFixtures demo_env ''fx/users.yml'' (NewFixtureManager, world0)) = None
   \<and> store (snd (snd (LoadYAMLFixtures demo_env ''fx/users.yml'' (NewFixtureManager, world0)))) =
       [(''INSERT INTO users (id, name) VALUES ($1, $2)'', [VInt 1, VStr ''a''])]"
proof -
  note a = LoadYAMLFixtures_atomic [OF demo_file_both demo_load_both_fails,
      THEN conjunct1, rule_format, OF demo_run_both, THEN conjunct2]
  note b = LoadYAMLFixtures_atomic [OF demo_file_users demo_load_users_ok,
      THEN conjunct2, rule_format, OF demo_run_users, THEN conjunct2]
  show ?thesis
    using a b demo_run_both demo_run_users
    by (simp add: demo_load_both_fails demo_load_users_ok)
qed

text \<open>
  C2 as the specification states it does not hold where every insert succeeds and the
  commit does not (as with a constraint that the database checks at commit): the call
  returns an error.
\<close>

theorem LoadYAMLFixtures_atomic_counterexample:
  "run_stmts commit_fails_env (load_stmts commit_fails_env world0 users_fixtures) (store world0) =
     Some [(''INSERT INTO users (id, name) VALUES ($1, $2)'', [VInt 1, VStr ''a''])]
   \<and> LoadYAMLFixtures commit_fails_env ''fx/users.yml'' (NewFixtureManager, world0) =
     (Some CommitFailed, users_manager,
      \<lparr>store = [],
       calls = [ReadFile ''fx/users.yml'', Begin,
                Exec ''INSERT INTO users (id, name) VALUES ($1, $2)'' [VInt 1, VStr ''a''],
                Commit, Rollback],
       ticks = 0\<rparr>)"
  using demo_run_users_commit_fails demo_load_users_commit_fails by simp




section \<open>Cleaning up\<close>

lemma CleanupFixtures_unfold:
  assumes ne: "insertedRecords fm \<noteq> Map.empty"
    and bg: "sql_begin env w"
    and run: "CleanupFixtures env order (fm, w) = (res, fm', w')"
  shows "\<exists>res1 w2 tx.
     cleanup_tables env fm order (log_call Begin w, store w) = (res1, w2, tx) \<and>
     (res1 \<noteq> None \<longrightarrow> res = res1 \<and> fm' = fm \<and> w' = log_call Rollback w2) \<and>
     (res1 = None \<longrightarrow>
        (if sql_commit env w2 tx
         then res = None \<and> fm' = fm\<lparr>insertedRecords := Map.empty\<rparr> \<and>
              w' = log_call Rollback (log_call Commit (w2\<lparr>store := tx\<rparr>))
         else res = Some CleanupCommitFailed \<and> fm' = fm \<and>
              w' = log_call Rollback (log_call Commit w2)))"
proof -
  let ?w1 = "log_call Begin w"
  have sw: "store ?w1 = store w" by (simp add: log_call_def)
  obtain res1 w2 tx where
    t: "cleanup_tables env fm order (?w1, store w) = (res1, w2, tx)"
    by (metis prod_cases3)
  show ?thesis
    using run ne bg t
    by (cases res1) (auto simp: CleanupFixtures_def Let_def sw split: if_splits)
qed

lemma CleanupFixtures_run_ex:
  assumes ne: "insertedRecords fm \<noteq> Map.empty"
    and bg: "sql_begin env w"
    and run: "CleanupFixtures env order (fm, w) = (res, fm', w')"
  shows "\<exists>n. n \<le> length (delete_plan fm order) \<and>
     (run_stmts env (delete_plan fm order) (store w) = None \<longrightarrow>
        0 < n \<and>
        run_stmts env (take (n - 1) (delete_plan fm order)) (store w) \<noteq> None \<and>
        run_stmts env (take n (delete_plan fm order)) (store w) = None \<and>
        res = Some (CleanupTableFailed (filter (has_group fm) order ! (n - 1))) \<and>
        fm' = fm \<and> store w' = store w \<and>
        calls w' = calls w @ [Begin] @ map exec_call (take n (delete_plan fm order)) @ [Rollback]) \<and>
     (\<forall>tx. run_stmts env (delete_plan fm order) (store w) = Some tx \<longrightarrow>
        n = length (delete_plan fm order) \<and>
        calls w' = calls w @ [Begin] @ map exec_call (delete_plan fm order) @ [Commit, Rollback] \<and>
        (if sql_commit env (w\<lparr>calls := calls w @ [Begin] @ map exec_call (delete_plan fm order)\<rparr>) tx
         then res = None \<and> store w' = tx \<and> fm' = fm\<lparr>insertedRecords := Map.empty\<rparr>
         else res = Some CleanupCommitFailed \<and> store w' = store w \<and> fm' = fm))"
proof -
  let ?plan = "delete_plan fm order"
  let ?w1 = "log_call Begin w"
  have w1: "ticks ?w1 = ticks w" "store ?w1 = store w" "calls ?w1 = calls w @ [Begin]"
    by (simp_all add: log_call_def)
  from CleanupFixtures_unfold [OF ne bg run] obtain res1 w2 tx where
    f: "cleanup_tables env fm order (?w1, store w) = (res1, w2, tx)" and
    fail: "res1 \<noteq> None \<longrightarrow> res = res1 \<and> fm' = fm \<and> w' = log_call Rollback w2" and
    ok: "res1 = None \<longrightarrow>
        (if sql_commit env w2 tx
         then res = None \<and> fm' = fm\<lparr>insertedRecords := Map.empty\<rparr> \<and>
              w' = log_call Rollback (log_call Commit (w2\<lparr>store := tx\<rparr>))
         else res = Some CleanupCommitFailed \<and> fm' = fm \<and>
              w' = log_call Rollback (log_call Commit w2))"
    by blast
  from cleanup_tables_run [OF f] obtain n where n: "n \<le> length ?plan"
    "calls w2 = calls w @ [Begin] @ map exec_call (take n ?plan)"
    "store w2 = store w" "ticks w2 = ticks w"
    "res1 = None \<longrightarrow> n = length ?plan \<and> run_stmts env ?plan (store w) = Some tx"
    "res1 \<noteq> None \<longrightarrow> 0 < n \<and>
        res1 = Some (CleanupTableFailed (filter (has_group fm) order ! (n - 1))) \<and>
        run_stmts env (take (n - 1) ?plan) (store w) = Some tx \<and>
        run_stmts env (take n ?plan) (store w) = None"
    unfolding w1 by auto
  show ?thesis
  proof (cases res1)
    case None
    with n have len: "n = length ?plan" and r: "run_stmts env ?plan (store w) = Some tx"
      by auto
    have w2: "w2 = w\<lparr>calls := calls w @ [Begin] @ map exec_call ?plan\<rparr>"
      using n(2,3,4) unfolding len by (intro world_eqI) simp_all
    show ?thesis
      using ok None r n(2) n(3)
      unfolding w2 [symmetric]
      by (intro exI [of _ n]) (auto simp: log_call_def len split: if_splits)
  next
    case (Some e)
    with n have pos: "0 < n"
      and e: "res1 = Some (CleanupTableFailed (filter (has_group fm) order ! (n - 1)))"
      and r1: "run_stmts env (take (n - 1) ?plan) (store w) = Some tx"
      and r2: "run_stmts env (take n ?plan) (store w) = None"
      by auto
    have all: "run_stmts env ?plan (store w) = None"
      using r2 by (rule run_stmts_take_None)
    show ?thesis
      using fail Some n(1) n(2) n(3) pos e r1 r2 all
      by (intro exI [of _ n]) (auto simp: log_call_def)
  qed
qed

lemma CleanupFixtures_run:
  assumes ne: "insertedRecords fm \<noteq> Map.empty"
    and bg: "sql_begin env w"
    and run: "CleanupFixtures env order (fm, w) = (res, fm', w')"
  obtains n where "n \<le> length (delete_plan fm order)"
    and "run_stmts env (delete_plan fm order) (store w) = None \<longrightarrow>
        0 < n \<and>
        run_stmts env (take (n - 1) (delete_plan fm order)) (store w) \<noteq> None \<and>
        run_stmts env (take n (delete_plan fm order)) (store w) = None \<and>
        res = Some (CleanupTableFailed (filter (has_group fm) order ! (n - 1))) \<and>
        fm' = fm \<and> store w' = store w \<and>
        calls w' = calls w @ [Begin] @ map exec_call (take n (delete_plan fm order)) @ [Rollback]"
    and "\<forall>tx. run_stmts env (delete_plan fm order) (store w) = Some tx \<longrightarrow>
        n = length (delete_plan fm order) \<and>
        calls w' = calls w @ [Begin] @ map exec_call (delete_plan fm order) @ [Commit, Rollback] \<and>
        (if sql_commit env (w\<lparr>calls := calls w @ [Begin] @ map exec_call (delete_plan fm order)\<rparr>) tx
         then res = None \<and> store w' = tx \<and> fm' = fm\<lparr>insertedRecords := Map.empty\<rparr>
         else res = Some CleanupCommitFailed \<and> store w' = store w \<and> fm' = fm)"
  using CleanupFixtures_run_ex [OF ne bg run]
  by (elim exE conjE) (rule that)

lemma has_group_iff:
  "has_group fm t =
     (\<exists>tuple \<in> set (tracked fm t). \<exists>pk \<in> set (getPrimaryKeys fm t). tuple pk \<noteq> None)"
  by (auto simp: has_group_def key_groups_def present_keys_def filter_empty_conv)

lemma has_group_tracked: "has_group fm t \<Longrightarrow> t \<in> dom (insertedRecords fm)"
  by (auto simp: has_group_def key_groups_def tracked_def split: option.splits)

lemma demo_cleanup_memberships:
  "CleanupFixtures demo_env [''memberships''] (memberships_manager, world0) =
     (None, ConfigureTable ''memberships'' [''user_id'', ''org_id''] NewFixtureManager,
      \<lparr>store = [(''DELETE FROM memberships WHERE (user_id = $1 AND org_id = $2) OR (user_id = $3 AND org_id = $4)'',
                 [VInt 1, VInt 10, VInt 1, VInt 20])],
       calls = [Begin,
                Exec ''DELETE FROM memberships WHERE (user_id = $1 AND org_id = $2) OR (user_id = $3 AND org_id = $4)''
                  [VInt 1, VInt 10, VInt 1, VInt 20],
                Commit, Rollback],
       ticks = 0\<rparr>)"
  by (simp add: demo memberships_manager_def ConfigureTable_def)

lemma demo_cleanup_both_fails:
  "CleanupFixtures exec_fails_env [''users'', ''orders''] (both_manager, world0) =
     (Some (CleanupTableFailed ''users''), both_manager,
      \<lparr>store = [], calls = [Begin, Exec ''DELETE FROM users WHERE (id = $1)'' [VInt 1], Rollback],
       ticks = 0\<rparr>)"
  by (simp add: demo exec_fails_env_def both_manager_def)

lemma demo_cleanup_rekeyed:
  "CleanupFixtures demo_env [''users''] (rekeyed_manager, world0) =
     (None, ConfigureTable ''users'' [''uuid''] NewFixtureManager,
      \<lparr>store = [], calls = [Begin, Commit, Rollback], ticks = 0\<rparr>)"
  by (simp add: demo rekeyed_manager_def ConfigureTable_def)

lemma demo_plan_memberships:
  "delete_plan memberships_manager [''memberships''] =
     [(''DELETE FROM memberships WHERE (user_id = $1 AND org_id = $2) OR (user_id = $3 AND org_id = $4)'',
       [VInt 1, VInt 10, VInt 1, VInt 20])]"
  by (simp add: demo memberships_manager_def ConfigureTable_def delete_plan_def has_group_def spec_delete_def key_groups_def present_keys_def
      tracked_def spec_values_def group_values_def spec_conditions_def upt_rec [of 1] upt_rec [of 2]
      upt_rec [of 3] upt_rec [of 4] upt_rec [of 5])

lemma demo_memberships_pre:
  "insertedRecords memberships_manager \<noteq> Map.empty"
  "sql_begin demo_env world0"
  "distinct [''memberships'']"
  "set [''memberships''] = dom (insertedRecords memberships_manager)"
  by (simp_all add: demo memberships_manager_def ConfigureTable_def)

lemma demo_run_memberships:
  "run_stmts demo_env (delete_plan memberships_manager [''memberships'']) (store world0) \<noteq> None"
  unfolding demo_plan_memberships by (simp add: demo)

text \<open>
  C4, as amended. For a non-empty tracking map whose cleanup transaction begins, the
  tables that get a DELETE are the tracked tables with at least one tuple that holds a
  configured key column of the table, each exactly once, in the order the map is visited;
  a tracked table whose tuples hold none gets no DELETE. When no DELETE fails, these
  statements are issued in one transaction between its begin and its commit. The WHERE
  clause of a table joins with OR one group per tuple that holds a configured key column;
  a group joins with AND the conditions \<open>column = $n\<close> over the configured key columns the
  tuple holds, in configured order; the parameters are numbered from 1 through the clause
  and the values are bound in that order. When a DELETE fails, the statements issued are
  those up to the failing one, and the transaction is rolled back without a commit.
\<close>

theorem CleanupFixtures_deletes:
  assumes ne: "insertedRecords fm \<noteq> Map.empty"
    and bg: "sql_begin env w"
    and ord: "distinct order" "set order = dom (insertedRecords fm)"
    and run: "CleanupFixtures env order (fm, w) = (res, fm', w')"
  shows "distinct (filter (has_group fm) order) \<and>
     set (filter (has_group fm) order) =
       {t \<in> dom (insertedRecords fm).
          \<exists>tuple \<in> set (tracked fm t). \<exists>pk \<in> set (getPrimaryKeys fm t). tuple pk \<noteq> None} \<and>
     (run_stmts env (delete_plan fm order) (store w) \<noteq> None \<longrightarrow>
        calls w' = calls w @ [Begin]
          @ map (\<lambda>t. Exec (''DELETE FROM '' @ t @ '' WHERE ''
                    @ join (spec_groups 1 (key_groups (getPrimaryKeys fm t) (tracked fm t))) '' OR '')
                  (spec_values (getPrimaryKeys fm t) (tracked fm t)))
              (filter (has_group fm) order)
          @ [Commit, Rollback]) \<and>
     (run_stmts env (delete_plan fm order) (store w) = None \<longrightarrow>
        (\<exists>n. 0 < n \<and> n \<le> length (filter (has_group fm) order) \<and>
           res = Some (CleanupTableFailed (filter (has_group fm) order ! (n - 1))) \<and>
           calls w' = calls w @ [Begin]
             @ map (\<lambda>t. Exec (''DELETE FROM '' @ t @ '' WHERE ''
                       @ join (spec_groups 1 (key_groups (getPrimaryKeys fm t) (tracked fm t))) '' OR '')
                     (spec_values (getPrimaryKeys fm t) (tracked fm t)))
                 (take n (filter (has_group fm) order))
             @ [Rollback]))"
proof -
  let ?del = "\<lambda>t. Exec (''DELETE FROM '' @ t @ '' WHERE ''
                    @ join (spec_groups 1 (key_groups (getPrimaryKeys fm t) (tracked fm t))) '' OR '')
                  (spec_values (getPrimaryKeys fm t) (tracked fm t))"
  have ex: "\<And>l. map exec_call (map (spec_delete fm) l) = map ?del l"
    by (simp add: exec_call_def spec_delete_def)
  have tk: "\<And>n. take n (delete_plan fm order) = map (spec_delete fm) (take n (filter (has_group fm) order))"
    by (simp add: delete_plan_def take_map)
  have len: "length (delete_plan fm order) = length (filter (has_group fm) order)"
    by (simp add: delete_plan_def)
  from ne bg run obtain n where
    n: "n \<le> length (delete_plan fm order)" and
    bad: "run_stmts env (delete_plan fm order) (store w) = None \<longrightarrow>
        0 < n \<and>
        run_stmts env (take (n - 1) (delete_plan fm order)) (store w) \<noteq> None \<and>
        run_stmts env (take n (delete_plan fm order)) (store w) = None \<and>
        res = Some (CleanupTableFailed (filter (has_group fm) order ! (n - 1))) \<and>
        fm' = fm \<and> store w' = store w \<and>
        calls w' = calls w @ [Begin] @ map exec_call (take n (delete_plan fm order)) @ [Rollback]" and
    good: "\<forall>tx. run_stmts env (delete_plan fm order) (store w) = Some tx \<longrightarrow>
        n = length (delete_plan fm order) \<and>
        calls w' = calls w @ [Begin] @ map exec_call (delete_plan fm order) @ [Commit, Rollback] \<and>
        (if sql_commit env (w\<lparr>calls := calls w @ [Begin] @ map exec_call (delete_plan fm order)\<rparr>) tx
         then res = None \<and> store w' = tx \<and> fm' = fm\<lparr>insertedRecords := Map.empty\<rparr>
         else res = Some CleanupCommitFailed \<and> store w' = store w \<and> fm' = fm)"
    by (rule CleanupFixtures_run)
  have d: "distinct (filter (has_group fm) order)"
    using ord(1) by simp
  have s: "set (filter (has_group fm) order) =
       {t \<in> dom (insertedRecords fm).
          \<exists>tuple \<in> set (tracked fm t). \<exists>pk \<in> set (getPrimaryKeys fm t). tuple pk \<noteq> None}"
    using ord(2) by (auto simp: has_group_iff)
  have g: "run_stmts env (delete_plan fm order) (store w) \<noteq> None \<longrightarrow>
        calls w' = calls w @ [Begin] @ map ?del (filter (has_group fm) order) @ [Commit, Rollback]"
  proof
    assume "run_stmts env (delete_plan fm order) (store w) \<noteq> None"
    then obtain tx where "run_stmts env (delete_plan fm order) (store w) = Some tx"
      by auto
    with good have "calls w' = calls w @ [Begin] @ map exec_call (delete_plan fm order) @ [Commit, Rollback]"
      by blast
    then show "calls w' = calls w @ [Begin] @ map ?del (filter (has_group fm) order) @ [Commit, Rollback]"
      unfolding delete_plan_def ex .
  qed
  have b: "run_stmts env (delete_plan fm order) (store w) = None \<longrightarrow>
        (\<exists>n. 0 < n \<and> n \<le> length (filter (has_group fm) order) \<and>
           res = Some (CleanupTableFailed (filter (has_group fm) order ! (n - 1))) \<and>
           calls w' = calls w @ [Begin] @ map ?del (take n (filter (has_group fm) order)) @ [Rollback])"
  proof
    assume "run_stmts env (delete_plan fm order) (store w) = None"
    with bad have "0 < n" "res = Some (CleanupTableFailed (filter (has_group fm) order ! (n - 1)))"
      "calls w' = calls w @ [Begin] @ map exec_call (take n (delete_plan fm order)) @ [Rollback]"
      by simp_all
    then show "\<exists>n. 0 < n \<and> n \<le> length (filter (has_group fm) order) \<and>
           res = Some (CleanupTableFailed (filter (has_group fm) order ! (n - 1))) \<and>
           calls w' = calls w @ [Begin] @ map ?del (take n (filter (has_group fm) order)) @ [Rollback]"
      using n unfolding len tk ex by (intro exI [of _ n]) simp
  qed
  from d s g b show ?thesis by (intro conjI)
qed

theorem CleanupFixtures_deletes_witness:
  "CleanupFixtures demo_env [''memberships''] (memberships_manager, world0) =
     (None, ConfigureTable ''memberships'' [''user_id'', ''org_id''] NewFixtureManager,
      \<lparr>store = [(''DELETE FROM memberships WHERE (user_id = $1 AND org_id = $2) OR (user_id = $3 AND org_id = $4)'',
                 [VInt 1, VInt 10, VInt 1, VInt 20])],
       calls = [Begin,
                Exec ''DELETE FROM memberships WHERE (user_id = $1 AND org_id = $2) OR (user_id = $3 AND org_id = $4)''
                  [VInt 1, VInt 10, VInt 1, VInt 20],
                Commit, Rollback],
       ticks = 0\<rparr>)
   \<and> run_stmts demo_env (delete_plan memberships_manager [''memberships'']) (store world0) \<noteq> None
   \<and> distinct (filter (has_group memberships_manager) [''memberships''])"
proof -
  note a = CleanupFixtures_deletes [OF demo_memberships_pre demo_cleanup_memberships,
      THEN conjunct1]
  show ?thesis
    using a demo_cleanup_memberships demo_run_memberships by simp
qed

text \<open>
  C4 as the specification states it does not hold in two situations. When the first
  DELETE fails, the other tracked table gets no DELETE. And when the key of a table was
  configured anew after its row was tracked, the tuple holds none of the configured key
  columns: the cleanup succeeds without any DELETE for that tracked table.
\<close>

theorem CleanupFixtures_deletes_counterexample:
  "tracked both_manager ''orders'' \<noteq> []
   \<and> CleanupFixtures exec_fails_env [''users'', ''orders''] (both_manager, world0) =
     (Some (CleanupTableFailed ''users''), both_manager,
      \<lparr>store = [], calls = [Begin, Exec ''DELETE FROM users WHERE (id = $1)'' [VInt 1], Rollback],
       ticks = 0\<rparr>)
   \<and> tracked rekeyed_manager ''users'' \<noteq> []
   \<and> CleanupFixtures demo_env [''users''] (rekeyed_manager, world0) =
     (None, ConfigureTable ''users'' [''uuid''] NewFixtureManager,
      \<lparr>store = [], calls = [Begin, Commit, Rollback], ticks = 0\<rparr>)"
  using demo_cleanup_both_fails demo_cleanup_rekeyed
  by (simp add: tracked_def both_manager_def rekeyed_manager_def ConfigureTable_def demo)

section \<open>What is tracked for a record\<close>















section \<open>Loading a directory\<close>

lemma fileExtensions_foldl_track [simp]:
  "fileExtensions (foldl track_record fm recs) = fileExtensions fm"
  by (induction recs arbitrary: fm) (simp_all add: track_record_def track_def)

lemma insert_tables_keeps:
  assumes "insert_tables env fixtures (fm, w, tx) = (res, fm', w', tx')"
  shows "store w' = store w" and "fileExtensions fm' = fileExtensions fm"
    and "\<exists>l. calls w' = calls w @ l \<and> (\<forall>p. ReadFile p \<notin> set l)"
proof -
  from assms have f: "insert_flat env (file_records fixtures) (fm, w, tx) = (res, fm', w', tx')"
    by (simp add: insert_tables_flat)
  from insert_flat_run [OF f] obtain n where
    c: "calls w' = calls w @ map exec_call
          (take n (file_stmts (time_now env) (ticks w) (file_records fixtures)))"
    and s: "store w' = store w"
    and m: "fm' = foldl track_record fm (take n (file_records fixtures))"
    by blast
  show "store w' = store w" by (rule s)
  show "fileExtensions fm' = fileExtensions fm" by (simp add: m)
  show "\<exists>l. calls w' = calls w @ l \<and> (\<forall>p. ReadFile p \<notin> set l)"
    using c by (auto simp: exec_call_def)
qed

lemma LoadYAMLFixtures_keeps:
  assumes "LoadYAMLFixtures env path (fm, w) = (res, fm', w')"
  shows "fileExtensions fm' = fileExtensions fm"
    and "\<exists>l. calls w' = calls w @ ReadFile path # l \<and> (\<forall>p. ReadFile p \<notin> set l)"
    and "res \<noteq> None \<longrightarrow> store w' = store w"
proof -
  let ?w0 = "log_call (ReadFile path) w"
  let ?w1 = "log_call Begin ?w0"
  have all: "fileExtensions fm' = fileExtensions fm \<and>
      (\<exists>l. calls w' = calls w @ ReadFile path # l \<and> (\<forall>p. ReadFile p \<notin> set l)) \<and>
      (res \<noteq> None \<longrightarrow> store w' = store w)"
  proof (cases "os_read_file env path")
    case None
    with assms show ?thesis
      by (auto simp: LoadYAMLFixtures_def Let_def log_call_def)
  next
    case (Some content)
    note rd = this
    show ?thesis
    proof (cases "yaml_unmarshal env content")
      case None
      with assms rd show ?thesis
        by (auto simp: LoadYAMLFixtures_def Let_def log_call_def)
    next
      case (Some fixtures)
      note um = this
      show ?thesis
      proof (cases "sql_begin env ?w0")
        case False
        with assms rd um show ?thesis
          by (auto simp: LoadYAMLFixtures_def Let_def log_call_def)
      next
        case True
        obtain res1 fm2 w2 tx where
          t: "insert_tables env fixtures (fm, ?w1, store ?w1) = (res1, fm2, w2, tx)"
          by (metis prod_cases4)
        from insert_tables_keeps [OF t] obtain l where
          k: "store w2 = store ?w1" "fileExtensions fm2 = fileExtensions fm"
            "calls w2 = calls ?w1 @ l" "\<forall>p. ReadFile p \<notin> set l"
          by blast
        have w1: "calls ?w1 = calls w @ [ReadFile path, Begin]" "store ?w1 = store w"
          by (simp_all add: log_call_def)
        show ?thesis
          using assms rd um True t k w1
          by (cases res1) (auto simp: LoadYAMLFixtures_def Let_def log_call_def split: if_splits)
      qed
    qed
  qed
  from all show "fileExtensions fm' = fileExtensions fm" by simp
  from all show "\<exists>l. calls w' = calls w @ ReadFile path # l \<and> (\<forall>p. ReadFile p \<notin> set l)" by simp
  from all show "res \<noteq> None \<longrightarrow> store w' = store w" by simp
qed

lemma load_entries_append:
  "load_entries env dir (before @ rest) s =
     (case load_entries env dir before s of
        (None, s') \<Rightarrow> load_entries env dir rest s'
      | (Some e, s') \<Rightarrow> (Some e, s'))"
proof (induction before arbitrary: s)
  case Nil
  then show ?case by simp
next
  case (Cons a before)
  obtain name isDir where a: "a = (name, isDir)" by (cases a)
  obtain fm w where s: "s = (fm, w)" by (cases s)
  show ?case
    by (simp add: a s Cons.IH split: prod.splits option.splits)
qed

lemma load_entries_keeps:
  "load_entries env dir entries (fm, w) = (res, fm', w') \<Longrightarrow>
     fileExtensions fm' = fileExtensions fm"
proof (induction entries arbitrary: fm w)
  case Nil
  then show ?case by simp
next
  case (Cons a entries)
  obtain name isDir where a: "a = (name, isDir)" by (cases a)
  show ?case
  proof (cases "\<not> isDir \<and> isFixtureFile fm name")
    case False
    with Cons.prems have "load_entries env dir entries (fm, w) = (res, fm', w')"
      by (auto simp: a)
    then show ?thesis by (rule Cons.IH)
  next
    case True
    obtain r1 fm1 w1 where
      l: "LoadYAMLFixtures env (path_join env dir name) (fm, w) = (r1, fm1, w1)"
      by (metis prod_cases3)
    have k: "fileExtensions fm1 = fileExtensions fm"
      using LoadYAMLFixtures_keeps(1) [OF l] .
    show ?thesis
    proof (cases r1)
      case None
      with Cons.prems True l have "load_entries env dir entries (fm1, w1) = (res, fm', w')"
        by (simp add: a)
      from Cons.IH [OF this] k show ?thesis by simp
    next
      case (Some e)
      with Cons.prems True l have "fm' = fm1" by (simp add: a)
      with k show ?thesis by simp
    qed
  qed
qed

lemma demo_seq_dir:
  "os_read_dir second_fails_env ''seq'' =
     Some ([(''a_logs.yml'', False), (''b_notes.txt'', False)] @ (''c_users.yml'', False)
            # [(''d_both.yml'', False)])"
  by (simp add: demo second_fails_env_def)

lemma demo_seq_fixture: "isFixtureFile NewFixtureManager ''c_users.yml''"
  by (simp add: demo isFixtureFile_def filepath_Ext_def)

lemma demo_seq_before:
  "load_entries second_fails_env ''seq'' [(''a_logs.yml'', False), (''b_notes.txt'', False)]
       (NewFixtureManager, log_call (ReadDir ''seq'') world0) =
     (None, NewFixtureManager, seq_world1)"
  by (simp add: demo second_fails_env_def seq_world1_def isFixtureFile_def filepath_Ext_def)

lemma demo_seq_fail:
  "LoadYAMLFixtures second_fails_env (path_join second_fails_env ''seq'' ''c_users.yml'')
       (NewFixtureManager, seq_world1) =
     (Some (InsertRecordsFailed ''users'' InsertRecordFailed), users_manager, seq_world2)"
  by (simp add: demo second_fails_env_def seq_world1_def seq_world2_def)

text \<open>
  C8. When the entries before a fixture file have been loaded without error and the
  load of that file fails, \<open>LoadFixturesFromDir\<close> returns the error of that file, wrapped
  with its name, whatever entries follow: after the failing file is read, no other file
  is read. The database holds what it held when the earlier files had been loaded.
\<close>

theorem LoadFixturesFromDir_stops_at_first_failure:
  assumes rd: "os_read_dir env dir = Some (before @ (name, False) # after)"
    and fx: "isFixtureFile fm name"
    and ok: "load_entries env dir before (fm, log_call (ReadDir dir) w) = (None, fm1, w1)"
    and fail: "LoadYAMLFixtures env (path_join env dir name) (fm1, w1) = (Some e, fm2, w2)"
  shows "LoadFixturesFromDir env dir (fm, w) = (Some (LoadFixtureFailed name e), fm2, w2) \<and>
         store w2 = store w1 \<and>
         (\<exists>l. calls w2 = calls w1 @ ReadFile (path_join env dir name) # l \<and>
              (\<forall>p. ReadFile p \<notin> set l))"
proof -
  have "fileExtensions fm1 = fileExtensions fm"
    using ok by (rule load_entries_keeps)
  then have fx1: "isFixtureFile fm1 name"
    using fx by (simp add: isFixtureFile_def)
  have "load_entries env dir (before @ (name, False) # after) (fm, log_call (ReadDir dir) w) =
      (Some (LoadFixtureFailed name e), fm2, w2)"
    unfolding load_entries_append ok using fx1 fail by simp
  then have r: "LoadFixturesFromDir env dir (fm, w) = (Some (LoadFixtureFailed name e), fm2, w2)"
    using rd by (simp add: LoadFixturesFromDir_def Let_def)
  from LoadYAMLFixtures_keeps(3) [OF fail] have s: "store w2 = store w1" by simp
  from LoadYAMLFixtures_keeps(2) [OF fail] r s show ?thesis by simp
qed

theorem LoadFixturesFromDir_stops_at_first_failure_witness:
  "os_read_dir second_fails_env ''seq'' =
     Some ([(''a_logs.yml'', False), (''b_notes.txt'', False)] @ (''c_users.yml'', False)
            # [(''d_both.yml'', False)])
   \<and> isFixtureFile NewFixtureManager ''c_users.yml''
   \<and> load_entries second_fails_env ''seq'' [(''a_logs.yml'', False), (''b_notes.txt'', False)]
       (NewFixtureManager, log_call (ReadDir ''seq'') world0) =
     (None, NewFixtureManager, seq_world1)
   \<and> LoadYAMLFixtures second_fails_env (path_join second_fails_env ''seq'' ''c_users.yml'')
       (NewFixtureManager, seq_world1) =
     (Some (InsertRecordsFailed ''users'' InsertRecordFailed), users_manager, seq_world2)
   \<and> LoadFixturesFromDir second_fails_env ''seq'' (NewFixtureManager, world0) =
     (Some (LoadFixtureFailed ''c_users.yml'' (InsertRecordsFailed ''users'' InsertRecordFailed)),
      users_manager, seq_world2)
   \<and> store seq_world2 = store seq_world1"
  using LoadFixturesFromDir_stops_at_first_failure
    [OF demo_seq_dir demo_seq_fixture demo_seq_before demo_seq_fail]
    demo_seq_dir demo_seq_fixture demo_seq_before demo_seq_fail
  by simp

end
